theory Spec2Isabelle
  imports Complex_Main "HOL-Library.AList" "HOL-Library.Multiset"
    "HOL-Library.Char_ord" "HOL-Library.List_Lexorder"
begin

section \<open>Benchmark analysis script: \<open>cli/scripts/analyze_benchmarks.py\<close>\<close>

text \<open>
  The script reads JSON Lines files of benchmark records, groups them by a key derived
  from each record's \<open>prover\<close> descriptor, and reports statistics per group.

  Modelling decisions.
  \<^item> The \<open>prover\<close> descriptor is an untyped \<open>dict\<close> in the source, inspected dynamically;
    it is modelled as a value of the type \<open>json\<close> below, with Python's behaviour on every
    shape (\<open>in\<close>, subscripting, \<open>.get\<close>, \<open>.lower\<close>, \<open>.split\<close>, truthiness) written out,
    each exception as an \<open>error\<close> value.
  \<^item> A Python \<open>dict\<close> is an association list in insertion order whose keys are distinct;
    \<open>AList.update\<close> replaces in place or appends, as assignment to a dict does.
  \<^item> Measurements (\<open>total_duration_ms\<close>, \<open>setup_time_ms\<close>, the round entries) have the
    types of the source's dataclass annotations (\<open>list[float]\<close>, \<open>list[int]\<close>); numbers
    are exact reals, so the rounding of IEEE doubles is outside the model. The one place
    where the arithmetic of the source's own inputs leaves the reals, the division by a
    zero standard error in the t-test, is modelled: its results are values of \<open>fnum\<close>.
  \<^item> Strings are byte strings (UTF-8). \<open>str.lower\<close> is modelled on the ASCII letters; no
    code point outside ASCII lower-cases to \<open>t\<close> or \<open>e\<close>, the only letters the source tests.
  \<^item> Library functions that are not part of the repository are parameters: \<open>fmt\<close> is
    Python's \<open>str()\<close> of a value that is not a string (used by the f-strings),
    \<open>t_interval\<close> is \<open>scipy.stats.t.interval\<close>, and \<open>tail\<close> is the upper tail
    probability of Student's t distribution, from which Welch's test
    \<open>scipy.stats.ttest_ind(..., equal_var=False)\<close> computes its p-value.
\<close>

subsection \<open>JSON values and Python's operations on them\<close>

datatype json =
    JNull
  | JBool bool
  | JInt int
  | JFloat real
  | JStr string
  | JList "json list"
  | JObj "(string \<times> json) list"

datatype error =
    OSError
  | JSONDecodeError
  | KeyError string
  | IndexError
  | TypeError
  | AttributeError

text \<open>Sequencing of fallible steps: the first exception aborts the rest.\<close>

definition ebind :: "error + 'a \<Rightarrow> ('a \<Rightarrow> error + 'b) \<Rightarrow> error + 'b" where
  "ebind m f = (case m of Inl e \<Rightarrow> Inl e | Inr x \<Rightarrow> f x)"

text \<open>\<open>s.startswith(p)\<close> and the substring test \<open>p in s\<close> on strings.\<close>

fun starts_with :: "string \<Rightarrow> string \<Rightarrow> bool" where
  "starts_with s [] = True"
| "starts_with [] (p # ps) = False"
| "starts_with (c # cs) (p # ps) = (c = p \<and> starts_with cs ps)"

fun str_contains :: "string \<Rightarrow> string \<Rightarrow> bool" where
  "str_contains p [] = (p = [])"
| "str_contains p (c # cs) = (starts_with (c # cs) p \<or> str_contains p cs)"

text \<open>\<open>str.lower()\<close> on the ASCII letters.\<close>

definition lower_char :: "char \<Rightarrow> char" where
  "lower_char c =
     (case map_of (zip ''ABCDEFGHIJKLMNOPQRSTUVWXYZ'' ''abcdefghijklmnopqrstuvwxyz'') c of
        Some d \<Rightarrow> d
      | None \<Rightarrow> c)"

definition str_lower :: "string \<Rightarrow> string" where
  "str_lower s = map lower_char s"

text \<open>Truthiness of a value, as \<open>if v:\<close> tests it.\<close>

fun truthy :: "json \<Rightarrow> bool" where
  "truthy JNull = False"
| "truthy (JBool b) = b"
| "truthy (JInt i) = (i \<noteq> 0)"
| "truthy (JFloat x) = (x \<noteq> 0)"
| "truthy (JStr s) = (s \<noteq> [])"
| "truthy (JList xs) = (xs \<noteq> [])"
| "truthy (JObj kvs) = (kvs \<noteq> [])"

text \<open>
  \<open>k in v\<close> for a string \<open>k\<close>: key membership in a dict, substring test in a string,
  element test in a list, \<open>TypeError\<close> on a value that is not iterable.
\<close>

fun py_in :: "string \<Rightarrow> json \<Rightarrow> error + bool" where
  "py_in k (JObj kvs) = Inr (k \<in> set (map fst kvs))"
| "py_in k (JStr s) = Inr (str_contains k s)"
| "py_in k (JList xs) = Inr (JStr k \<in> set xs)"
| "py_in k v = Inl TypeError"

text \<open>\<open>v[k]\<close> for a string \<open>k\<close>: \<open>KeyError\<close> on a missing key, \<open>TypeError\<close> off a dict.\<close>

fun py_getitem :: "json \<Rightarrow> string \<Rightarrow> error + json" where
  "py_getitem (JObj kvs) k =
     (case map_of kvs k of None \<Rightarrow> Inl (KeyError k) | Some x \<Rightarrow> Inr x)"
| "py_getitem v k = Inl TypeError"

text \<open>\<open>v.get(k, d)\<close>: only a dict has the method.\<close>

fun py_get :: "json \<Rightarrow> string \<Rightarrow> json \<Rightarrow> error + json" where
  "py_get (JObj kvs) k d = Inr (case map_of kvs k of None \<Rightarrow> d | Some x \<Rightarrow> x)"
| "py_get v k d = Inl AttributeError"

text \<open>\<open>v.lower()\<close>: only a string has the method.\<close>

fun py_lower :: "json \<Rightarrow> error + string" where
  "py_lower (JStr s) = Inr (str_lower s)"
| "py_lower v = Inl AttributeError"

text \<open>\<open>v.split(".")[0]\<close>: the part of a string before its first dot.\<close>

fun py_split_first :: "json \<Rightarrow> error + json" where
  "py_split_first (JStr s) = Inr (JStr (takeWhile (\<lambda>c. c \<noteq> CHR ''.'') s))"
| "py_split_first v = Inl AttributeError"

text \<open>\<open>list(v.keys())[0]\<close>: the first key of a dict, \<open>IndexError\<close> when it has none.\<close>

fun py_first_key :: "json \<Rightarrow> error + string" where
  "py_first_key (JObj []) = Inl IndexError"
| "py_first_key (JObj (kv # kvs)) = Inr (fst kv)"
| "py_first_key v = Inl AttributeError"

text \<open>The text an f-string inserts for a value: a string as it is, anything else by \<open>str()\<close>.\<close>

fun py_format :: "(json \<Rightarrow> string) \<Rightarrow> json \<Rightarrow> string" where
  "py_format fmt (JStr s) = s"
| "py_format fmt v = fmt v"

subsection \<open>The group key: \<open>parse_prover_type\<close> and lines 144--151 of \<open>load_and_aggregate\<close>\<close>

definition tls_branch :: "string \<Rightarrow> json \<Rightarrow> error + (string \<times> json \<times> json)" where
  "tls_branch tag prover =
     ebind (py_getitem prover tag) (\<lambda>inner.
     ebind (py_getitem inner ''notary'') (\<lambda>notary.
     ebind (py_get notary ''domain'' JNull) (\<lambda>domain_v.
     ebind (py_get notary ''network_optimization'' JNull) (\<lambda>opt.
       Inr (tag, domain_v, opt)))))"

definition proxy_branch :: "json \<Rightarrow> error + (string \<times> json \<times> json)" where
  "proxy_branch prover =
     ebind (py_getitem prover ''Proxy'') (\<lambda>proxy_wrapper.
     ebind (py_get proxy_wrapper ''proxy'' proxy_wrapper) (\<lambda>proxy_config.
     ebind (py_get proxy_config ''host'' (JStr [])) (\<lambda>host.
     ebind (py_lower host) (\<lambda>low.
       if str_contains ''tee'' low then Inr (''Proxy-TEE'', host, JNull)
       else Inr (''Proxy'', host, JNull)))))"

definition parse_prover_type :: "json \<Rightarrow> error + (string \<times> json \<times> json)" where
  "parse_prover_type prover =
     ebind (py_in ''Direct'' prover) (\<lambda>is_direct.
       if is_direct then Inr (''Direct'', JNull, JNull)
       else ebind (py_in ''Proxy'' prover) (\<lambda>is_proxy.
         if is_proxy then proxy_branch prover
         else ebind (py_in ''TlsSingleShot'' prover) (\<lambda>is_single.
           if is_single then tls_branch ''TlsSingleShot'' prover
           else ebind (py_in ''TlsPerMessage'' prover) (\<lambda>is_per.
             if is_per then tls_branch ''TlsPerMessage'' prover
             else ebind (py_first_key prover) (\<lambda>k. Inr (k, JNull, JNull))))))"

text \<open>
  The key built from the three results (lines 144--151): the type, then the short
  domain in parentheses when the domain is truthy, then the network optimisation in
  brackets when it is truthy.
\<close>

definition group_key :: "(json \<Rightarrow> string) \<Rightarrow> string \<times> json \<times> json \<Rightarrow> error + string" where
  "group_key fmt parsed =
     (case parsed of (prover_type, notary_domain, network_opt) \<Rightarrow>
        ebind
          (if truthy notary_domain then
             ebind (py_in ''.'' notary_domain) (\<lambda>has_dot.
             ebind (if has_dot then py_split_first notary_domain else Inr notary_domain)
               (\<lambda>short_domain.
                  Inr (prover_type @ '' ('' @ py_format fmt short_domain @ '')'')))
           else Inr prover_type)
          (\<lambda>key.
             Inr (if truthy network_opt
                  then key @ '' ['' @ py_format fmt network_opt @ '']''
                  else key)))"

definition resolve_key :: "(json \<Rightarrow> string) \<Rightarrow> json \<Rightarrow> error + string" where
  "resolve_key fmt prover = ebind (parse_prover_type prover) (group_key fmt)"

text \<open>
  The descriptors the resolver is documented for: an object with a \<open>Direct\<close> tag; else
  with a \<open>Proxy\<close> tag whose payload, or the object under its \<open>"proxy"\<close> entry, is an
  object whose \<open>"host"\<close>, if any, is a string; else with a \<open>TlsSingleShot\<close> or
  \<open>TlsPerMessage\<close> tag (tested in this order) whose payload has a \<open>"notary"\<close> object whose
  \<open>"domain"\<close>, if any, is a string or null; else with at least one tag.
\<close>

fun is_str :: "json \<Rightarrow> bool" where
  "is_str (JStr s) = True"
| "is_str v = False"

fun str_or_null :: "json \<Rightarrow> bool" where
  "str_or_null JNull = True"
| "str_or_null (JStr s) = True"
| "str_or_null v = False"

fun host_ok :: "json \<Rightarrow> bool" where
  "host_ok (JObj c) = (case map_of c ''host'' of None \<Rightarrow> True | Some h \<Rightarrow> is_str h)"
| "host_ok v = False"

fun proxy_ok :: "json \<Rightarrow> bool" where
  "proxy_ok (JObj w) =
     (case map_of w ''proxy'' of None \<Rightarrow> host_ok (JObj w) | Some c \<Rightarrow> host_ok c)"
| "proxy_ok v = False"

fun domain_ok :: "json \<Rightarrow> bool" where
  "domain_ok (JObj nt) =
     (case map_of nt ''domain'' of None \<Rightarrow> True | Some d \<Rightarrow> str_or_null d)"
| "domain_ok v = False"

fun notary_ok :: "json \<Rightarrow> bool" where
  "notary_ok (JObj w) =
     (case map_of w ''notary'' of None \<Rightarrow> False | Some nt \<Rightarrow> domain_ok nt)"
| "notary_ok v = False"

definition payload_ok :: "(json \<Rightarrow> bool) \<Rightarrow> (string \<times> json) list \<Rightarrow> string \<Rightarrow> bool" where
  "payload_ok ok kvs tag = (case map_of kvs tag of None \<Rightarrow> False | Some v \<Rightarrow> ok v)"

fun well_shaped :: "json \<Rightarrow> bool" where
  "well_shaped (JObj kvs) =
     (if ''Direct'' \<in> set (map fst kvs) then True
      else if ''Proxy'' \<in> set (map fst kvs) then payload_ok proxy_ok kvs ''Proxy''
      else if ''TlsSingleShot'' \<in> set (map fst kvs)
        then payload_ok notary_ok kvs ''TlsSingleShot''
      else if ''TlsPerMessage'' \<in> set (map fst kvs)
        then payload_ok notary_ok kvs ''TlsPerMessage''
      else kvs \<noteq> [])"
| "well_shaped v = False"

text \<open>The two descriptors of the spec's Scenario B.\<close>

definition proxy_descriptor :: "string \<Rightarrow> json" where
  "proxy_descriptor host = JObj [(''Proxy'', JObj [(''proxy'', JObj [(''host'', JStr host)])])]"

subsection \<open>Statistics: \<open>compute_ci\<close> and \<open>compute_stats\<close>\<close>

text \<open>
  The numpy and scipy reductions the source calls, over exact reals. The source calls
  them on non-empty series only (and the \<open>ddof=1\<close> ones on series of length at least 2).
\<close>

definition np_mean :: "real list \<Rightarrow> real" where
  "np_mean xs = sum_list xs / real (length xs)"

definition np_var1 :: "real list \<Rightarrow> real" where
  "np_var1 xs = (\<Sum>x\<leftarrow>xs. (x - np_mean xs)\<^sup>2) / (real (length xs) - 1)"

definition np_std1 :: "real list \<Rightarrow> real" where
  "np_std1 xs = sqrt (np_var1 xs)"

definition stats_sem :: "real list \<Rightarrow> real" where
  "stats_sem xs = np_std1 xs / sqrt (real (length xs))"

definition np_min :: "real list \<Rightarrow> real" where
  "np_min xs = Min (set xs)"

definition np_max :: "real list \<Rightarrow> real" where
  "np_max xs = Max (set xs)"

definition np_median :: "real list \<Rightarrow> real" where
  "np_median xs =
     (let s = sort xs; k = length xs div 2
      in if odd (length xs) then s ! k else (s ! (k - 1) + s ! k) / 2)"

text \<open>
  \<open>scipy.stats.t.interval(confidence, df, loc, scale)\<close>: the two ends of the Student-t
  interval.
\<close>

type_synonym t_interval = "real \<Rightarrow> nat \<Rightarrow> real \<Rightarrow> real \<Rightarrow> real \<times> real"

definition compute_ci :: "t_interval \<Rightarrow> real list \<Rightarrow> real \<Rightarrow> real \<times> real \<times> real" where
  "compute_ci ti data confidence =
     (if length data < 2 then
        (let mean = (if data \<noteq> [] then np_mean data else 0) in (mean, mean, mean))
      else
        (let mean = np_mean data;
             sem = stats_sem data;
             ci = ti confidence (length data - 1) mean sem
         in (mean, fst ci, snd ci)))"

text \<open>
  The dict \<open>compute_stats\<close> returns. The literal returned for an empty series has no
  \<open>"ci_width_pct"\<close> entry, so that field is optional: \<open>None\<close> is the absent key.
\<close>

record StatSummary =
  st_n :: nat
  st_mean :: real
  st_std :: real
  st_sem :: real
  st_ci_lower :: real
  st_ci_upper :: real
  st_min :: real
  st_max :: real
  st_median :: real
  st_cv :: real
  st_ci_width_pct :: "real option"
  st_adequate_sample :: bool

definition compute_stats :: "t_interval \<Rightarrow> real list \<Rightarrow> StatSummary" where
  "compute_stats ti data =
     (if data = [] then
        \<lparr>st_n = 0, st_mean = 0, st_std = 0, st_sem = 0,
         st_ci_lower = 0, st_ci_upper = 0,
         st_min = 0, st_max = 0, st_median = 0,
         st_cv = 0, st_ci_width_pct = None, st_adequate_sample = False\<rparr>
      else
        (let n = length data;
             std = (if n > 1 then np_std1 data else 0);
             sem = (if n > 1 then stats_sem data else 0)
         in case compute_ci ti data (95 / 100) of (mean, ci_lower, ci_upper) \<Rightarrow>
           (let cv = (if mean > 0 then std / mean * 100 else 0);
                ci_width_pct = (if mean > 0 then (ci_upper - ci_lower) / mean * 100 else 100);
                adequate_sample = (n \<ge> 5 \<and> cv < 30 \<and> ci_width_pct < 40)
            in \<lparr>st_n = n, st_mean = mean, st_std = std, st_sem = sem,
                st_ci_lower = ci_lower, st_ci_upper = ci_upper,
                st_min = np_min data, st_max = np_max data, st_median = np_median data,
                st_cv = cv, st_ci_width_pct = Some ci_width_pct,
                st_adequate_sample = adequate_sample\<rparr>)))"

subsection \<open>Aggregation: \<open>load_and_aggregate\<close>\<close>

text \<open>
  A parsed record. A field that may be missing from the JSON object is an option;
  subscripting a missing field raises \<open>KeyError\<close>, \<open>.get\<close> yields its default.
\<close>

record round_data =
  rd_round :: "int option"
  rd_duration_ms :: "real option"
  rd_request_bytes :: "int option"
  rd_response_bytes :: "int option"

record results_payload =
  total_duration_ms :: "real option"
  setup_time_ms :: "real option"
  rounds :: "round_data list option"

record bench_record =
  rec_prover :: "json option"
  rec_success :: "bool option"
  rec_results :: "results_payload option"

text \<open>The two dataclasses of the source.\<close>

record RoundStats =
  round_num :: int
  durations_ms :: "real list"
  request_bytes :: "int list"
  response_bytes :: "int list"

record ProverStats =
  prover_type :: string
  notary_domain :: json
  total_durations_ms :: "real list"
  setup_times_ms :: "real list"
  rounds_stats :: "(int \<times> RoundStats) list"
  all_round_durations_ms :: "real list"
  success_count :: nat
  failure_count :: nat

definition new_RoundStats :: "int \<Rightarrow> RoundStats" where
  "new_RoundStats k =
     \<lparr>round_num = k, durations_ms = [], request_bytes = [], response_bytes = []\<rparr>"

definition new_ProverStats :: "string \<Rightarrow> json \<Rightarrow> ProverStats" where
  "new_ProverStats pt nd =
     \<lparr>prover_type = pt, notary_domain = nd, total_durations_ms = [], setup_times_ms = [],
      rounds_stats = [], all_round_durations_ms = [], success_count = 0, failure_count = 0\<rparr>"

text \<open>A loop whose body may raise: the first exception ends it.\<close>

fun efold :: "('a \<Rightarrow> 's \<Rightarrow> error + 's) \<Rightarrow> 'a list \<Rightarrow> 's \<Rightarrow> error + 's" where
  "efold f [] s = Inr s"
| "efold f (x # xs) s = ebind (f x s) (efold f xs)"

text \<open>The body of \<open>for round_data in results.get("rounds", [])\<close> (lines 170--179).\<close>

definition add_round :: "round_data \<Rightarrow> ProverStats \<Rightarrow> error + ProverStats" where
  "add_round rd ps =
     (case rd_round rd of None \<Rightarrow> Inl (KeyError ''round'') | Some k \<Rightarrow>
      (let rs = (case map_of (rounds_stats ps) k of None \<Rightarrow> new_RoundStats k | Some rs \<Rightarrow> rs)
       in case rd_duration_ms rd of None \<Rightarrow> Inl (KeyError ''duration_ms'') | Some d \<Rightarrow>
          (case rd_request_bytes rd of None \<Rightarrow> Inl (KeyError ''request_bytes'') | Some rq \<Rightarrow>
           (case rd_response_bytes rd of None \<Rightarrow> Inl (KeyError ''response_bytes'') | Some rp \<Rightarrow>
              Inr (ps\<lparr>rounds_stats :=
                         AList.update k
                           (rs\<lparr>durations_ms := durations_ms rs @ [d],
                               request_bytes := request_bytes rs @ [rq],
                               response_bytes := response_bytes rs @ [rp]\<rparr>)
                           (rounds_stats ps),
                       all_round_durations_ms := all_round_durations_ms ps @ [d]\<rparr>)))))"

text \<open>
  What one record does to its group's accumulator (lines 161--181). \<open>setup_time_ms\<close> is
  appended when \<open>results.get("setup_time_ms")\<close> is truthy: present and not zero.
\<close>

definition update_stats :: "bench_record \<Rightarrow> ProverStats \<Rightarrow> error + ProverStats" where
  "update_stats r ps =
     (if (case rec_success r of None \<Rightarrow> False | Some b \<Rightarrow> b) then
        (case rec_results r of None \<Rightarrow> Inl (KeyError ''results'') | Some res \<Rightarrow>
         (case total_duration_ms res of None \<Rightarrow> Inl (KeyError ''total_duration_ms'') | Some t \<Rightarrow>
          (let ps1 = ps\<lparr>success_count := success_count ps + 1,
                         total_durations_ms := total_durations_ms ps @ [t]\<rparr>;
               ps2 = (case setup_time_ms res of
                        None \<Rightarrow> ps1
                      | Some s \<Rightarrow>
                          if s \<noteq> 0 then ps1\<lparr>setup_times_ms := setup_times_ms ps1 @ [s]\<rparr>
                          else ps1)
           in efold add_round (case rounds res of None \<Rightarrow> [] | Some rds \<Rightarrow> rds) ps2)))
      else Inr (ps\<lparr>failure_count := failure_count ps + 1\<rparr>))"

text \<open>The group key of a record (lines 143--151).\<close>

definition record_key :: "(json \<Rightarrow> string) \<Rightarrow> bench_record \<Rightarrow> error + string" where
  "record_key fmt r =
     (case rec_prover r of None \<Rightarrow> Inl (KeyError ''prover'') | Some prover \<Rightarrow>
        resolve_key fmt prover)"

text \<open>One record (lines 143--181): the accumulator is created on first sight of its key.\<close>

definition ingest ::
  "(json \<Rightarrow> string) \<Rightarrow> bench_record \<Rightarrow> (string \<times> ProverStats) list
     \<Rightarrow> error + (string \<times> ProverStats) list" where
  "ingest fmt r provers =
     (case rec_prover r of None \<Rightarrow> Inl (KeyError ''prover'') | Some prover \<Rightarrow>
      ebind (parse_prover_type prover) (\<lambda>parsed.
      ebind (group_key fmt parsed) (\<lambda>key.
        (let ps = (case map_of provers key of
                     None \<Rightarrow> new_ProverStats (fst parsed) (fst (snd parsed))
                   | Some ps \<Rightarrow> ps)
         in ebind (update_stats r ps) (\<lambda>ps'. Inr (AList.update key ps' provers))))))"

text \<open>
  A line of a file: blank (skipped), text that \<open>json.loads\<close> rejects, a JSON value
  that is not an object (subscripting it with \<open>"prover"\<close> is a \<open>TypeError\<close>), or a record.
\<close>

datatype line = Blank | Malformed | NonObject | Record bench_record

definition process_line ::
  "(json \<Rightarrow> string) \<Rightarrow> line \<Rightarrow> (string \<times> ProverStats) list
     \<Rightarrow> error + (string \<times> ProverStats) list" where
  "process_line fmt l provers =
     (case l of
        Blank \<Rightarrow> Inr provers
      | Malformed \<Rightarrow> Inl JSONDecodeError
      | NonObject \<Rightarrow> Inl TypeError
      | Record r \<Rightarrow> ingest fmt r provers)"

datatype jsonl_file = Unreadable | Readable "line list"

definition load_file ::
  "(json \<Rightarrow> string) \<Rightarrow> jsonl_file \<Rightarrow> (string \<times> ProverStats) list
     \<Rightarrow> error + (string \<times> ProverStats) list" where
  "load_file fmt f provers =
     (case f of
        Unreadable \<Rightarrow> Inl OSError
      | Readable ls \<Rightarrow> efold (process_line fmt) ls provers)"

definition load_and_aggregate ::
  "(json \<Rightarrow> string) \<Rightarrow> jsonl_file list \<Rightarrow> error + (string \<times> ProverStats) list" where
  "load_and_aggregate fmt files = efold (load_file fmt) files []"

subsection \<open>Significance tests: \<open>perform_significance_tests\<close>\<close>

text \<open>
  What the t-test returns: a double that is a number, an infinity or NaN. Negation, and
  the comparison \<open>x < c\<close> with a number, which is false for NaN.
\<close>

datatype fnum = Num real | PosInf | NegInf | NaN


fun fless :: "fnum \<Rightarrow> real \<Rightarrow> bool" where
  "fless (Num x) c = (x < c)"
| "fless NegInf c = True"
| "fless PosInf c = False"
| "fless NaN c = False"

text \<open>
  \<open>scipy.stats.ttest_ind(a, b, equal_var=False)\<close>: the t statistic and the two-sided
  p-value of Welch's test, a parameter of \<open>perform_significance_tests\<close>.
\<close>

type_synonym ttest_ind = "real list \<Rightarrow> real list \<Rightarrow> fnum \<times> fnum"

text \<open>
  Welch's test as the library computes it, for samples of at least two values: the
  difference of the means over the standard error \<open>sqrt (v1 / n1 + v2 / n2)\<close>, the
  Welch-Satterthwaite degrees of freedom, and twice the upper tail probability of
  Student's t at \<open>|t|\<close>. The library divides with floating-point errors ignored: when
  both samples have zero variance the standard error is zero, and the statistic is an
  infinity with p-value 0, or NaN with p-value NaN when the means are equal too.
\<close>

definition welch_ttest :: "(real \<Rightarrow> real \<Rightarrow> real) \<Rightarrow> ttest_ind" where
  "welch_ttest tail a b =
     (let n1 = real (length a); n2 = real (length b);
          vn1 = np_var1 a / n1; vn2 = np_var1 b / n2;
          denom = sqrt (vn1 + vn2);
          d = np_mean a - np_mean b
      in if denom = 0 then
           (if d = 0 then (NaN, NaN)
            else if d > 0 then (PosInf, Num 0) else (NegInf, Num 0))
         else
           (let df = (vn1 + vn2)\<^sup>2 / (vn1\<^sup>2 / (n1 - 1) + vn2\<^sup>2 / (n2 - 1));
                t = d / denom
            in (Num t, Num (2 * tail df \<bar>t\<bar>))))"

record SigResult =
  comparison :: string
  t_statistic :: fnum
  p_value :: fnum
  cohens_d :: real
  significant_005 :: bool
  significant_001 :: bool

definition cohens_d_of :: "real list \<Rightarrow> real list \<Rightarrow> real" where
  "cohens_d_of xs ys =
     (let pooled_std = sqrt ((np_var1 xs + np_var1 ys) / 2)
      in if pooled_std > 0 then (np_mean xs - np_mean ys) / pooled_std else 0)"

text \<open>The result appended for a pair of groups that is tested (lines 198--217).\<close>

definition pair_result ::
  "ttest_ind \<Rightarrow> (string \<times> ProverStats) \<times> (string \<times> ProverStats) \<Rightarrow> SigResult" where
  "pair_result tt pr =
     (case pr of ((key1, ps1), (key2, ps2)) \<Rightarrow>
       (case tt (total_durations_ms ps1) (total_durations_ms ps2) of (t_stat, p) \<Rightarrow>
          \<lparr>comparison = key1 @ '' vs '' @ key2,
           t_statistic = t_stat,
           p_value = p,
           cohens_d = cohens_d_of (total_durations_ms ps1) (total_durations_ms ps2),
           significant_005 = fless p (5 / 100),
           significant_001 = fless p (1 / 100)\<rparr>))"

text \<open>The guard of line 196.\<close>

definition testable :: "(string \<times> ProverStats) \<times> (string \<times> ProverStats) \<Rightarrow> bool" where
  "testable pr =
     (length (total_durations_ms (snd (fst pr))) \<ge> 2 \<and>
      length (total_durations_ms (snd (snd pr))) \<ge> 2)"

text \<open>The body of the inner loop (lines 193--217), on the list of results so far.\<close>

definition compare_pair ::
  "ttest_ind \<Rightarrow> string \<times> ProverStats \<Rightarrow> string \<times> ProverStats
     \<Rightarrow> SigResult list \<Rightarrow> SigResult list" where
  "compare_pair tt e1 e2 results =
     (if testable (e1, e2) then results @ [pair_result tt (e1, e2)] else results)"

text \<open>
  The two loops: the outer one over the dict's entries in insertion order, the inner one
  over the entries after the current one (\<open>prover_keys[i+1:]\<close>). The keys of a dict are
  distinct, so \<open>provers[key]\<close> is the entry's own value.
\<close>

fun sig_loop ::
  "ttest_ind \<Rightarrow> (string \<times> ProverStats) list \<Rightarrow> SigResult list \<Rightarrow> SigResult list" where
  "sig_loop tt [] results = results"
| "sig_loop tt (e1 # rest) results = sig_loop tt rest (fold (compare_pair tt e1) rest results)"

definition perform_significance_tests ::
  "ttest_ind \<Rightarrow> (string \<times> ProverStats) list \<Rightarrow> SigResult list" where
  "perform_significance_tests tt provers = sig_loop tt provers []"

text \<open>
  The unordered pairs of a list, each once, the earlier element first: what the spec's
  statements about the significance tests speak of, to be compared with the loops above.
\<close>

fun pairs :: "'a list \<Rightarrow> ('a \<times> 'a) list" where
  "pairs [] = []"
| "pairs (x # xs) = map (Pair x) xs @ pairs xs"

subsection \<open>The renderers: \<open>print_report\<close>, \<open>export_csv\<close>, \<open>export_json\<close>\<close>

text \<open>
  The renderers are modelled by what they emit, not by its text: a CSV row carries the
  summary whose fields the source formats to two decimals, and the report is the list
  of the blocks printed. Both iterate over \<open>sorted(provers.items())\<close>, the entries by
  key in the order of Python's strings (code points, which is the byte order of UTF-8).
\<close>

datatype metric = TotalDuration | SetupTime | AvgRoundDuration | RoundDuration int

record csv_row =
  csv_prover_type :: string
  csv_metric :: metric
  csv_stats :: StatSummary

text \<open>The rows written for one group (lines 366--403); the header row is not modelled.\<close>

definition csv_rows :: "t_interval \<Rightarrow> string \<times> ProverStats \<Rightarrow> csv_row list" where
  "csv_rows ti e =
     (case e of (key, ps) \<Rightarrow>
        if success_count ps = 0 then []
        else
          [\<lparr>csv_prover_type = key, csv_metric = TotalDuration,
            csv_stats = compute_stats ti (total_durations_ms ps)\<rparr>]
          @ (if setup_times_ms ps \<noteq> [] then
               [\<lparr>csv_prover_type = key, csv_metric = SetupTime,
                 csv_stats = compute_stats ti (setup_times_ms ps)\<rparr>]
             else [])
          @ (if all_round_durations_ms ps \<noteq> [] then
               [\<lparr>csv_prover_type = key, csv_metric = AvgRoundDuration,
                 csv_stats = compute_stats ti (all_round_durations_ms ps)\<rparr>]
             else [])
          @ map (\<lambda>(k, rs). \<lparr>csv_prover_type = key, csv_metric = RoundDuration k,
                             csv_stats = compute_stats ti (durations_ms rs)\<rparr>)
              (sort_key fst (rounds_stats ps)))"

definition export_csv :: "t_interval \<Rightarrow> (string \<times> ProverStats) list \<Rightarrow> csv_row list" where
  "export_csv ti provers = concat (map (csv_rows ti) (sort_key fst provers))"

record per_round_entry =
  pr_duration :: StatSummary
  pr_request_bytes :: StatSummary
  pr_response_bytes :: StatSummary

record prover_data =
  pd_success_count :: nat
  pd_failure_count :: nat
  pd_total_duration :: StatSummary
  pd_setup_time :: "StatSummary option"
  pd_avg_round_duration :: "StatSummary option"
  pd_per_round :: "(int \<times> per_round_entry) list"

record json_export =
  je_provers :: "(string \<times> prover_data) list"
  je_significance_tests :: "SigResult list"

text \<open>The entry added to \<open>data["provers"]\<close> for one group (lines 420--440), if any.\<close>

definition json_entry ::
  "t_interval \<Rightarrow> string \<times> ProverStats \<Rightarrow> (string \<times> prover_data) list" where
  "json_entry ti e =
     (case e of (key, ps) \<Rightarrow>
        if success_count ps = 0 then []
        else
          [(key,
            \<lparr>pd_success_count = success_count ps,
             pd_failure_count = failure_count ps,
             pd_total_duration = compute_stats ti (total_durations_ms ps),
             pd_setup_time =
               (if setup_times_ms ps \<noteq> [] then Some (compute_stats ti (setup_times_ms ps))
                else None),
             pd_avg_round_duration =
               (if all_round_durations_ms ps \<noteq> []
                then Some (compute_stats ti (all_round_durations_ms ps)) else None),
             pd_per_round =
               map (\<lambda>(k, rs).
                      (k, \<lparr>pr_duration = compute_stats ti (durations_ms rs),
                           pr_request_bytes =
                             compute_stats ti (map real_of_int (request_bytes rs)),
                           pr_response_bytes =
                             compute_stats ti (map real_of_int (response_bytes rs))\<rparr>))
                 (sort_key fst (rounds_stats ps))\<rparr>)])"

definition export_json ::
  "t_interval \<Rightarrow> (string \<times> ProverStats) list \<Rightarrow> SigResult list \<Rightarrow> json_export" where
  "export_json ti provers significance_tests =
     \<lparr>je_provers = concat (map (json_entry ti) (sort_key fst provers)),
      je_significance_tests = significance_tests\<rparr>"

text \<open>
  The report, as the list of what is printed and the exception that ends the printing, if
  any. For each group: its heading, the line of run counts (successful, total, success
  rate), and then either the notice that there is nothing to analyse or the statistics
  blocks (lines 261--316), which are kept as one item carrying the total-duration summary
  they start from. The sample-adequacy block reads \<open>total_stats["ci_width_pct"]\<close> on both
  of its branches, which is a \<open>KeyError\<close> when the summary is that of an empty series.
  The section of significance tests follows the groups.
\<close>

datatype report_item =
    ReportTitle
  | ProverHeading string
  | RunsLine nat nat real
  | NoSuccessfulRuns
  | StatisticsBlocks StatSummary
  | SignificanceHeading
  | SignificanceLine SigResult

definition report_group ::
  "t_interval \<Rightarrow> string \<times> ProverStats \<Rightarrow> report_item list \<times> error option" where
  "report_group ti e =
     (case e of (key, ps) \<Rightarrow>
        (let total_runs = success_count ps + failure_count ps;
             success_rate =
               (if total_runs > 0 then real (success_count ps) / real total_runs * 100 else 0);
             runs = [ProverHeading key, RunsLine (success_count ps) total_runs success_rate]
         in if success_count ps = 0 then (runs @ [NoSuccessfulRuns], None)
            else
              (let total_stats = compute_stats ti (total_durations_ms ps)
               in (runs @ [StatisticsBlocks total_stats],
                   case st_ci_width_pct total_stats of
                     None \<Rightarrow> Some (KeyError ''ci_width_pct'')
                   | Some w \<Rightarrow> None))))"

text \<open>The loop over the groups: an exception ends it, what was printed stays printed.\<close>

fun report_groups ::
  "t_interval \<Rightarrow> (string \<times> ProverStats) list \<Rightarrow> report_item list \<times> error option" where
  "report_groups ti [] = ([], None)"
| "report_groups ti (e # es) =
     (case report_group ti e of
        (items, Some err) \<Rightarrow> (items, Some err)
      | (items, None) \<Rightarrow> (case report_groups ti es of (rest, r) \<Rightarrow> (items @ rest, r)))"

definition print_report ::
  "t_interval \<Rightarrow> (string \<times> ProverStats) list \<Rightarrow> SigResult list
     \<Rightarrow> report_item list \<times> error option" where
  "print_report ti provers significance_tests =
     (case report_groups ti (sort_key fst provers) of
        (items, Some err) \<Rightarrow> (ReportTitle # items, Some err)
      | (items, None) \<Rightarrow>
          (ReportTitle # items
             @ (if significance_tests \<noteq> []
                then SignificanceHeading # map SignificanceLine significance_tests else []),
           None))"

subsection \<open>What a batch of records should add up to\<close>

text \<open>
  The spec's statements about the aggregator speak of the records of a batch that resolve to a key
  and of what each contributes. These definitions follow the spec's words; the theorems
  compare them with \<open>load_and_aggregate\<close>.

  A record counts as successful when \<open>record.get("success", False)\<close> is true.
\<close>

definition is_success :: "bench_record \<Rightarrow> bool" where
  "is_success r = (case rec_success r of None \<Rightarrow> False | Some b \<Rightarrow> b)"

fun opt_list :: "'a option \<Rightarrow> 'a list" where
  "opt_list None = []"
| "opt_list (Some x) = [x]"

text \<open>
  What a record contributes to its group's series: its total duration when it is
  successful; its setup time when it is successful and the setup time is present and not
  zero; its round entries when it is successful.
\<close>

definition totals_of :: "bench_record \<Rightarrow> real list" where
  "totals_of r =
     (if is_success r then
        (case rec_results r of None \<Rightarrow> [] | Some res \<Rightarrow> opt_list (total_duration_ms res))
      else [])"

definition setups_of :: "bench_record \<Rightarrow> real list" where
  "setups_of r =
     (if is_success r then
        (case rec_results r of
           None \<Rightarrow> []
         | Some res \<Rightarrow>
             (case setup_time_ms res of None \<Rightarrow> [] | Some s \<Rightarrow> if s \<noteq> 0 then [s] else []))
      else [])"

definition rounds_of :: "bench_record \<Rightarrow> round_data list" where
  "rounds_of r =
     (if is_success r then
        (case rec_results r of
           None \<Rightarrow> []
         | Some res \<Rightarrow> (case rounds res of None \<Rightarrow> [] | Some rds \<Rightarrow> rds))
      else [])"

text \<open>The three series of a list of round entries, and the entries of round \<open>j\<close>.\<close>

definition round_durations :: "round_data list \<Rightarrow> real list" where
  "round_durations rds = concat (map (\<lambda>rd. opt_list (rd_duration_ms rd)) rds)"

definition in_round :: "int \<Rightarrow> round_data list \<Rightarrow> round_data list" where
  "in_round j rds = filter (\<lambda>rd. rd_round rd = Some j) rds"

type_synonym round_series = "real list \<times> int list \<times> int list"

definition round_entries :: "round_data list \<Rightarrow> round_series" where
  "round_entries rds =
     (round_durations rds,
      concat (map (\<lambda>rd. opt_list (rd_request_bytes rd)) rds),
      concat (map (\<lambda>rd. opt_list (rd_response_bytes rd)) rds))"

text \<open>
  The three series an accumulator holds for round \<open>j\<close> (empty when it has no such round),
  and the accumulator of a key in the dict (an empty one when the key is absent).
\<close>

definition round_view :: "ProverStats \<Rightarrow> int \<Rightarrow> round_series" where
  "round_view ps j =
     (case map_of (rounds_stats ps) j of
        None \<Rightarrow> ([], [], [])
      | Some rs \<Rightarrow> (durations_ms rs, request_bytes rs, response_bytes rs))"

fun rplus :: "round_series \<Rightarrow> round_series \<Rightarrow> round_series" where
  "rplus (a, b, c) (a', b', c') = (a @ a', b @ b', c @ c')"

definition stats_of :: "(string \<times> ProverStats) list \<Rightarrow> string \<Rightarrow> ProverStats" where
  "stats_of provers k =
     (case map_of provers k of None \<Rightarrow> new_ProverStats [] JNull | Some ps \<Rightarrow> ps)"

text \<open>The records of a batch whose resolved key is \<open>k\<close>, in input order.\<close>

definition for_key :: "(json \<Rightarrow> string) \<Rightarrow> string \<Rightarrow> bench_record list \<Rightarrow> bench_record list" where
  "for_key fmt k recs = filter (\<lambda>r. record_key fmt r = Inr k) recs"

text \<open>
  A record can be ingested when its key can be resolved and, if it is successful, its
  \<open>results\<close> hold a total duration and every round entry has its four fields.
\<close>

definition round_ok :: "round_data \<Rightarrow> bool" where
  "round_ok rd =
     (rd_round rd \<noteq> None \<and> rd_duration_ms rd \<noteq> None \<and>
      rd_request_bytes rd \<noteq> None \<and> rd_response_bytes rd \<noteq> None)"

definition payload_complete :: "bench_record \<Rightarrow> bool" where
  "payload_complete r =
     (if is_success r then
        (case rec_results r of
           None \<Rightarrow> False
         | Some res \<Rightarrow>
             total_duration_ms res \<noteq> None \<and>
             list_all round_ok (case rounds res of None \<Rightarrow> [] | Some rds \<Rightarrow> rds))
      else True)"

text \<open>
  The counters and flat series of an accumulator, and what a list of records of one
  group should make them.
\<close>

type_synonym series_view = "nat \<times> nat \<times> real list \<times> real list \<times> real list"

definition series_view :: "ProverStats \<Rightarrow> series_view" where
  "series_view ps =
     (success_count ps, failure_count ps, total_durations_ms ps, setup_times_ms ps,
      all_round_durations_ms ps)"

fun splus :: "series_view \<Rightarrow> series_view \<Rightarrow> series_view" where
  "splus (a, b, c, d, e) (a', b', c', d', e') = (a + a', b + b', c @ c', d @ d', e @ e')"

definition expected_series :: "bench_record list \<Rightarrow> series_view" where
  "expected_series rs =
     (length (filter is_success rs),
      length (filter (\<lambda>r. \<not> is_success r) rs),
      concat (map totals_of rs),
      concat (map setups_of rs),
      round_durations (concat (map rounds_of rs)))"

definition expected_round :: "int \<Rightarrow> bench_record list \<Rightarrow> round_series" where
  "expected_round j rs = round_entries (in_round j (concat (map rounds_of rs)))"

definition ingestible :: "(json \<Rightarrow> string) \<Rightarrow> bench_record \<Rightarrow> bool" where
  "ingestible fmt r = (case record_key fmt r of Inl e \<Rightarrow> False | Inr k \<Rightarrow> payload_complete r)"

text \<open>The lines and the records of a list of files, in reading order.\<close>

fun file_lines :: "jsonl_file \<Rightarrow> line list" where
  "file_lines Unreadable = []"
| "file_lines (Readable ls) = ls"

fun readable :: "jsonl_file \<Rightarrow> bool" where
  "readable Unreadable = False"
| "readable (Readable ls) = True"

definition all_lines :: "jsonl_file list \<Rightarrow> line list" where
  "all_lines files = concat (map file_lines files)"

fun line_records :: "line \<Rightarrow> bench_record list" where
  "line_records (Record r) = [r]"
| "line_records l = []"

definition file_records :: "jsonl_file list \<Rightarrow> bench_record list" where
  "file_records files = concat (map line_records (all_lines files))"



subsection \<open>What does not depend on the order of the input\<close>












text \<open>
  The keys of a list of records, in input order, and the order of first appearance of
  the elements of a list: each element is appended when it has not been seen yet.
\<close>

definition record_keys :: "(json \<Rightarrow> string) \<Rightarrow> bench_record list \<Rightarrow> string list" where
  "record_keys fmt recs =
     concat (map (\<lambda>r. case record_key fmt r of Inl e \<Rightarrow> [] | Inr k \<Rightarrow> [k]) recs)"

fun add_keys :: "'a list \<Rightarrow> 'a list \<Rightarrow> 'a list" where
  "add_keys seen [] = seen"
| "add_keys seen (k # ks) = add_keys (if k \<in> set seen then seen else seen @ [k]) ks"

definition first_seen :: "'a list \<Rightarrow> 'a list" where
  "first_seen ks = add_keys [] ks"

subsection \<open>Example inputs\<close>

text \<open>
  Records of a \<open>Direct\<close> prover: a successful run with a total duration and an optional
  setup time, a failed run, and a run marked successful that lacks its \<open>results\<close>.
\<close>

definition direct_run :: "real \<Rightarrow> real option \<Rightarrow> bench_record" where
  "direct_run t s =
     \<lparr>rec_prover = Some (JObj [(''Direct'', JObj [])]),
      rec_success = Some True,
      rec_results = Some \<lparr>total_duration_ms = Some t, setup_time_ms = s, rounds = Some []\<rparr>\<rparr>"

definition failed_run :: bench_record where
  "failed_run =
     \<lparr>rec_prover = Some (JObj [(''Direct'', JObj [])]),
      rec_success = Some False,
      rec_results = None\<rparr>"

definition truncated_run :: bench_record where
  "truncated_run =
     \<lparr>rec_prover = Some (JObj [(''Direct'', JObj [])]),
      rec_success = Some True,
      rec_results = None\<rparr>"

definition example_files :: "jsonl_file list" where
  "example_files =
     [Readable [Record (direct_run 100 (Some 0)), Blank, Record failed_run],
      Readable [Record (direct_run 102 (Some 7)), Record (direct_run 98 None)]]"

definition example_stats :: ProverStats where
  "example_stats =
     \<lparr>prover_type = ''Direct'', notary_domain = JNull,
      total_durations_ms = [100, 102, 98], setup_times_ms = [7],
      rounds_stats = [], all_round_durations_ms = [],
      success_count = 3, failure_count = 1\<rparr>"

text \<open>A file of failed runs only.\<close>

definition failed_only :: "jsonl_file list" where
  "failed_only = [Readable [Record failed_run, Blank, Record failed_run]]"

text \<open>
  A successful run of an unrecognised prover \<open>Other\<close>, and two orders of the same four
  records of two groups.
\<close>

definition other_run :: "real \<Rightarrow> bench_record" where
  "other_run t =
     \<lparr>rec_prover = Some (JObj [(''Other'', JObj [])]),
      rec_success = Some True,
      rec_results = Some \<lparr>total_duration_ms = Some t, setup_time_ms = None, rounds = None\<rparr>\<rparr>"



text \<open>Two groups of two runs that all took the same time.\<close>

definition constant_runs :: "jsonl_file list" where
  "constant_runs =
     [Readable [Record (direct_run 1 None), Record (direct_run 1 None),
                Record (other_run 1), Record (other_run 1)]]"

subsection \<open>Accumulators for examples\<close>

text \<open>A group holding only a series of total durations.\<close>

definition group_of :: "real list \<Rightarrow> ProverStats" where
  "group_of ds = (new_ProverStats ''Direct'' JNull)\<lparr>total_durations_ms := ds, success_count := length ds\<rparr>"

section \<open>Properties\<close>

subsection \<open>Sequencing\<close>

lemma ebind_simps [simp]: "ebind (Inl e) f = Inl e" "ebind (Inr x) f = f x"
  by (simp_all add: ebind_def)

lemma ebind_eq_Inr: "ebind m f = Inr y \<longleftrightarrow> (\<exists>x. m = Inr x \<and> f x = Inr y)"
  by (cases m) simp_all

subsection \<open>Strings\<close>

text \<open>The two string tests are the prefix and the substring relation.\<close>

lemma starts_with_iff: "starts_with s p \<longleftrightarrow> (\<exists>t. s = p @ t)"
  by (induction s p rule: starts_with.induct) auto

lemma str_contains_iff: "str_contains p s \<longleftrightarrow> (\<exists>a b. s = a @ p @ b)"
proof (induction s)
  case Nil
  then show ?case by simp
next
  case (Cons c cs)
  show ?case
  proof
    assume "str_contains p (c # cs)"
    then consider "starts_with (c # cs) p" | "str_contains p cs" by auto
    then show "\<exists>a b. c # cs = a @ p @ b"
    proof cases
      case 1
      then obtain t where "c # cs = p @ t" by (auto simp: starts_with_iff)
      then have "c # cs = [] @ p @ t" by simp
      then show ?thesis by blast
    next
      case 2
      with Cons.IH obtain a b where "cs = a @ p @ b" by blast
      then have "c # cs = (c # a) @ p @ b" by simp
      then show ?thesis by blast
    qed
  next
    assume "\<exists>a b. c # cs = a @ p @ b"
    then obtain a b where ab: "c # cs = a @ p @ b" by blast
    show "str_contains p (c # cs)"
    proof (cases a)
      case Nil
      with ab have "starts_with (c # cs) p" by (auto simp: starts_with_iff)
      then show ?thesis by simp
    next
      case (Cons x a')
      with ab have "cs = a' @ p @ b" by simp
      with Cons.IH have "str_contains p cs" by blast
      then show ?thesis by simp
    qed
  qed
qed

subsection \<open>The group-key resolver\<close>

lemma proxy_branch_host:
  "proxy_branch (proxy_descriptor h) =
     Inr (if str_contains ''tee'' (str_lower h) then ''Proxy-TEE'' else ''Proxy'', JStr h, JNull)"
  by (simp add: proxy_branch_def proxy_descriptor_def)

text \<open>
  C1 (as amended). For the two records of Scenario B the resolver returns the base labels
  \<open>Proxy-TEE\<close> and \<open>Proxy\<close>; for any host string the label is \<open>Proxy-TEE\<close> exactly when the
  lower-cased host contains \<open>tee\<close>. The host is returned as the peer domain, so the group
  keys built from these results are \<open>Proxy-TEE (tee-proxy)\<close> and \<open>Proxy (plain)\<close>.
\<close>

theorem scenario_b_group_keys:
  "parse_prover_type (proxy_descriptor h) =
     Inr (if str_contains ''tee'' (str_lower h) then ''Proxy-TEE'' else ''Proxy'', JStr h, JNull)
   \<and> parse_prover_type (proxy_descriptor ''tee-proxy.example.com'') =
       Inr (''Proxy-TEE'', JStr ''tee-proxy.example.com'', JNull)
   \<and> parse_prover_type (proxy_descriptor ''plain.example.com'') =
       Inr (''Proxy'', JStr ''plain.example.com'', JNull)
   \<and> resolve_key fmt (proxy_descriptor ''tee-proxy.example.com'') = Inr ''Proxy-TEE (tee-proxy)''
   \<and> resolve_key fmt (proxy_descriptor ''plain.example.com'') = Inr ''Proxy (plain)''"
proof -
  have parse: "parse_prover_type (proxy_descriptor s) = proxy_branch (proxy_descriptor s)" for s
    by (simp add: parse_prover_type_def proxy_descriptor_def)
  have tee: "str_contains ''tee'' (str_lower ''tee-proxy.example.com'')"
    by (simp add: str_lower_def lower_char_def)
  have plain: "\<not> str_contains ''tee'' (str_lower ''plain.example.com'')"
    by (simp add: str_lower_def lower_char_def)
  show ?thesis
    using tee plain by (simp add: parse proxy_branch_host resolve_key_def group_key_def)
qed

text \<open>
  C1 as stated fails: the keys of the two records are not \<open>Proxy-TEE\<close> and \<open>Proxy\<close>,
  whatever \<open>str()\<close> is.
\<close>

theorem scenario_b_keys_are_not_bare_labels:
  "\<forall>fmt. resolve_key fmt (proxy_descriptor ''tee-proxy.example.com'') \<noteq> Inr ''Proxy-TEE''
       \<and> resolve_key fmt (proxy_descriptor ''plain.example.com'') \<noteq> Inr ''Proxy''"
  by (simp add: resolve_key_def parse_prover_type_def proxy_branch_def proxy_descriptor_def
      group_key_def str_lower_def lower_char_def)

lemma group_key_str_or_null:
  "str_or_null d \<Longrightarrow> \<exists>k. group_key fmt (pt, d, opt) = Inr k"
  by (cases d) (simp_all add: group_key_def)

lemma host_ok_get:
  "host_ok c \<Longrightarrow> \<exists>s. py_get c ''host'' (JStr []) = Inr (JStr s)"
proof (cases c)
  case (JObj kv)
  assume "host_ok c"
  with JObj show ?thesis
  proof (cases "map_of kv ''host''")
    case (Some h)
    with JObj \<open>host_ok c\<close> show ?thesis by (cases h) simp_all
  qed simp
qed simp_all

lemma proxy_ok_get:
  "proxy_ok w \<Longrightarrow> \<exists>c. py_get w ''proxy'' w = Inr c \<and> host_ok c"
  by (cases w) (auto split: option.splits)

lemma proxy_branch_ok:
  assumes "map_of kvs ''Proxy'' = Some v" "proxy_ok v"
  shows "\<exists>pt h. proxy_branch (JObj kvs) = Inr (pt, h, JNull) \<and> str_or_null h"
proof -
  from proxy_ok_get[OF assms(2)] obtain c where c: "py_get v ''proxy'' v = Inr c" "host_ok c"
    by blast
  from host_ok_get[OF c(2)] obtain s where "py_get c ''host'' (JStr []) = Inr (JStr s)"
    by blast
  with assms(1) c(1) show ?thesis by (simp add: proxy_branch_def)
qed

lemma domain_ok_get:
  "domain_ok nt \<Longrightarrow>
     \<exists>d opt. py_get nt ''domain'' JNull = Inr d \<and>
             py_get nt ''network_optimization'' JNull = Inr opt \<and> str_or_null d"
  by (cases nt) (auto split: option.splits)

lemma notary_ok_get:
  "notary_ok w \<Longrightarrow> \<exists>nt. py_getitem w ''notary'' = Inr nt \<and> domain_ok nt"
  by (cases w) (auto split: option.splits)

lemma tls_branch_ok:
  assumes "map_of kvs tag = Some v" "notary_ok v"
  shows "\<exists>d opt. tls_branch tag (JObj kvs) = Inr (tag, d, opt) \<and> str_or_null d"
proof -
  from notary_ok_get[OF assms(2)] obtain nt
    where nt: "py_getitem v ''notary'' = Inr nt" "domain_ok nt" by blast
  from domain_ok_get[OF nt(2)] obtain d opt where
    "py_get nt ''domain'' JNull = Inr d" "py_get nt ''network_optimization'' JNull = Inr opt"
    "str_or_null d" by blast
  with assms(1) nt(1) show ?thesis by (simp add: tls_branch_def)
qed

lemma parse_well_shaped:
  assumes "well_shaped p"
  shows "\<exists>pt d opt. parse_prover_type p = Inr (pt, d, opt) \<and> str_or_null d"
proof -
  from assms obtain kvs where p: "p = JObj kvs"
    by (cases p) simp_all
  show ?thesis
  proof (cases "''Direct'' \<in> set (map fst kvs)")
    case True
    then show ?thesis by (simp add: p parse_prover_type_def)
  next
    case nd: False
    show ?thesis
    proof (cases "''Proxy'' \<in> set (map fst kvs)")
      case True
      with nd assms p obtain v where "map_of kvs ''Proxy'' = Some v" "proxy_ok v"
        by (auto simp: payload_ok_def split: option.splits)
      from proxy_branch_ok[OF this] nd True show ?thesis
        by (auto simp: p parse_prover_type_def)
    next
      case np: False
      show ?thesis
      proof (cases "''TlsSingleShot'' \<in> set (map fst kvs)")
        case True
        with nd np assms p obtain v where "map_of kvs ''TlsSingleShot'' = Some v" "notary_ok v"
          by (auto simp: payload_ok_def split: option.splits)
        from tls_branch_ok[OF this] nd np True show ?thesis
          by (auto simp: p parse_prover_type_def)
      next
        case ns: False
        show ?thesis
        proof (cases "''TlsPerMessage'' \<in> set (map fst kvs)")
          case True
          with nd np ns assms p obtain v
            where "map_of kvs ''TlsPerMessage'' = Some v" "notary_ok v"
            by (auto simp: payload_ok_def split: option.splits)
          from tls_branch_ok[OF this] nd np ns True show ?thesis
            by (auto simp: p parse_prover_type_def)
        next
          case False
          with nd np ns assms p have "kvs \<noteq> []" by simp
          then obtain kv rest where "kvs = kv # rest" by (cases kvs) auto
          with nd np ns False show ?thesis
            by (simp add: p parse_prover_type_def)
        qed
      qed
    qed
  qed
qed

text \<open>
  C7 (as amended). On every descriptor of a documented shape the resolver returns exactly
  one result and the key construction exactly one key, whatever \<open>str()\<close> is. (It is a
  function of its argument alone: equal descriptors give equal keys.)
\<close>

theorem resolver_total_on_documented_shapes:
  assumes "well_shaped p"
  shows "(\<exists>!r. parse_prover_type p = Inr r) \<and> (\<exists>!k. resolve_key fmt p = Inr k)"
proof -
  from parse_well_shaped[OF assms] obtain pt d opt
    where r: "parse_prover_type p = Inr (pt, d, opt)" and d: "str_or_null d" by blast
  from group_key_str_or_null[OF d] obtain k where "group_key fmt (pt, d, opt) = Inr k" by blast
  with r show ?thesis by (simp add: resolve_key_def)
qed

theorem resolver_total_on_documented_shapes_witness:
  "well_shaped (JObj [(''Foo'', JNull)]) \<and>
   (\<exists>!r. parse_prover_type (JObj [(''Foo'', JNull)]) = Inr r) \<and>
   (\<exists>!k. resolve_key (\<lambda>v. []) (JObj [(''Foo'', JNull)]) = Inr k)"
proof -
  have w: "well_shaped (JObj [(''Foo'', JNull)])" by simp
  from resolver_total_on_documented_shapes[OF w, of "\<lambda>v. []"] w show ?thesis by blast
qed

text \<open>
  C7 as stated fails: on the descriptor with no tag at all (the empty object) the resolver
  raises \<open>IndexError\<close>.
\<close>

theorem resolver_fails_on_empty_descriptor:
  "parse_prover_type (JObj []) = Inl IndexError"
  by (simp add: parse_prover_type_def)

subsection \<open>Statistics\<close>

text \<open>
  C5 (as amended). For a single-element series \<open>[x]\<close> the summary has mean \<open>x\<close> (not 0),
  \<open>std = sem = 0\<close>, and the confidence interval \<open>[x, x]\<close>; minimum, maximum and median are
  \<open>x\<close> too, and the sample is never adequate.
\<close>

theorem compute_stats_single:
  "compute_stats ti [x] =
     \<lparr>st_n = 1, st_mean = x, st_std = 0, st_sem = 0,
      st_ci_lower = x, st_ci_upper = x,
      st_min = x, st_max = x, st_median = x,
      st_cv = 0, st_ci_width_pct = Some (if x > 0 then 0 else 100),
      st_adequate_sample = False\<rparr>"
  by (simp add: compute_stats_def compute_ci_def np_mean_def np_min_def np_max_def
      np_median_def)

text \<open>C5 as stated fails: the mean of the series \<open>[5]\<close> is 5, whatever the t interval is.\<close>

theorem compute_stats_single_mean_not_zero:
  "\<forall>ti. st_mean (compute_stats ti [5]) \<noteq> 0"
  by (simp add: compute_stats_def compute_ci_def np_mean_def)

text \<open>
  C6. On the empty series \<open>compute_stats\<close> returns \<open>n = 0\<close>, \<open>adequate_sample = False\<close> and
  zeros, but no \<open>ci_width_pct\<close> at all: the key is missing from the returned dict.
\<close>

theorem compute_stats_empty:
  "compute_stats ti [] =
     \<lparr>st_n = 0, st_mean = 0, st_std = 0, st_sem = 0,
      st_ci_lower = 0, st_ci_upper = 0,
      st_min = 0, st_max = 0, st_median = 0,
      st_cv = 0, st_ci_width_pct = None, st_adequate_sample = False\<rparr>"
  by (simp add: compute_stats_def)

subsection \<open>Aggregation\<close>

lemma efold_append:
  "efold f (xs @ ys) s = ebind (efold f xs s) (efold f ys)"
  by (induction xs arbitrary: s) (simp_all add: ebind_def split: sum.splits)

lemma add_round_ok: "(\<exists>ps'. add_round rd ps = Inr ps') \<longleftrightarrow> round_ok rd"
  by (auto simp: add_round_def round_ok_def Let_def split: option.splits)

lemma add_round_fields:
  assumes "add_round rd ps = Inr ps'"
  shows "success_count ps' = success_count ps" "failure_count ps' = failure_count ps"
    "total_durations_ms ps' = total_durations_ms ps" "setup_times_ms ps' = setup_times_ms ps"
    "all_round_durations_ms ps' = all_round_durations_ms ps @ round_durations [rd]"
  using assms
  by (auto simp: add_round_def Let_def round_durations_def split: option.splits)

lemma add_round_view:
  assumes "add_round rd ps = Inr ps'"
  shows "round_view ps' j = rplus (round_view ps j) (round_entries (in_round j [rd]))"
  using assms
  by (auto simp: add_round_def Let_def round_durations_def round_view_def update_conv'
      in_round_def round_entries_def new_RoundStats_def split: option.splits)

lemma rplus_empty [simp]: "rplus v ([], [], []) = v"
  by (cases v) simp

lemma rplus_assoc: "rplus (rplus a b) c = rplus a (rplus b c)"
  by (cases a, cases b, cases c) simp

lemma round_entries_append:
  "round_entries (xs @ ys) = rplus (round_entries xs) (round_entries ys)"
  by (simp add: round_entries_def round_durations_def)

lemma round_entries_Nil [simp]: "round_entries [] = ([], [], [])"
  by (simp add: round_entries_def round_durations_def)

lemma in_round_simps [simp]:
  "in_round j [] = []" "in_round j (xs @ ys) = in_round j xs @ in_round j ys"
  by (simp_all add: in_round_def)

lemma round_durations_append [simp]:
  "round_durations (xs @ ys) = round_durations xs @ round_durations ys" "round_durations [] = []"
  by (simp_all add: round_durations_def)

lemma efold_add_round_fields:
  assumes "efold add_round rds ps = Inr ps'"
  shows "success_count ps' = success_count ps \<and> failure_count ps' = failure_count ps \<and>
    total_durations_ms ps' = total_durations_ms ps \<and> setup_times_ms ps' = setup_times_ms ps \<and>
    all_round_durations_ms ps' = all_round_durations_ms ps @ round_durations rds \<and>
    round_view ps' j = rplus (round_view ps j) (round_entries (in_round j rds))"
  using assms
proof (induction rds arbitrary: ps)
  case Nil
  then show ?case by simp
next
  case (Cons rd rds)
  from Cons.prems obtain ps1 where 1: "add_round rd ps = Inr ps1" and 2: "efold add_round rds ps1 = Inr ps'"
    by (auto simp: ebind_eq_Inr)
  have split: "rd # rds = [rd] @ rds" by simp
  from Cons.IH[OF 2] add_round_fields[OF 1] add_round_view[OF 1, of j] show ?case
    unfolding split in_round_simps round_entries_append round_durations_append
    by (simp add: rplus_assoc)
qed

lemma efold_add_round_ok:
  "(\<exists>ps'. efold add_round rds ps = Inr ps') \<longleftrightarrow> list_all round_ok rds"
proof (induction rds arbitrary: ps)
  case Nil
  then show ?case by simp
next
  case (Cons rd rds)
  show ?case
  proof (cases "add_round rd ps")
    case (Inl e)
    with add_round_ok[of rd ps] show ?thesis by simp
  next
    case (Inr ps1)
    with add_round_ok[of rd ps] Cons.IH[of ps1] show ?thesis by auto
  qed
qed

lemma update_stats_ok: "(\<exists>ps'. update_stats r ps = Inr ps') \<longleftrightarrow> payload_complete r"
  using efold_add_round_ok
  by (auto simp: update_stats_def payload_complete_def is_success_def Let_def split: option.splits)

lemma update_stats_view:
  assumes "update_stats r ps = Inr ps'"
  shows "series_view ps' = splus (series_view ps) (expected_series [r])"
    and "round_view ps' j = rplus (round_view ps j) (expected_round j [r])"
proof -
  show "series_view ps' = splus (series_view ps) (expected_series [r])"
  proof (cases "is_success r")
    case False
    with assms show ?thesis
      by (auto simp: update_stats_def is_success_def series_view_def expected_series_def
          totals_of_def setups_of_def rounds_of_def)
  next
    case True
    with assms obtain res t where res: "rec_results r = Some res" "total_duration_ms res = Some t"
      by (auto simp: update_stats_def is_success_def split: option.splits)
    define ps2 where "ps2 = (case setup_time_ms res of None \<Rightarrow> ps\<lparr>success_count := success_count ps + 1,
                         total_durations_ms := total_durations_ms ps @ [t]\<rparr>
                      | Some s \<Rightarrow> if s \<noteq> 0 then ps\<lparr>success_count := success_count ps + 1,
                         total_durations_ms := total_durations_ms ps @ [t], setup_times_ms := setup_times_ms ps @ [s]\<rparr>
                          else ps\<lparr>success_count := success_count ps + 1,
                         total_durations_ms := total_durations_ms ps @ [t]\<rparr>)"
    from assms True res have e: "efold add_round (case rounds res of None \<Rightarrow> [] | Some rds \<Rightarrow> rds) ps2 = Inr ps'"
      by (auto simp: update_stats_def is_success_def ps2_def Let_def split: option.splits)
    from efold_add_round_fields[OF e] True res show ?thesis
      by (auto simp: series_view_def expected_series_def totals_of_def setups_of_def rounds_of_def
          ps2_def split: option.splits)
  qed
  show "round_view ps' j = rplus (round_view ps j) (expected_round j [r])"
  proof (cases "is_success r")
    case False
    with assms show ?thesis
      by (auto simp: update_stats_def is_success_def round_view_def expected_round_def
          rounds_of_def split: option.splits)
  next
    case True
    with assms obtain res t where res: "rec_results r = Some res" "total_duration_ms res = Some t"
      by (auto simp: update_stats_def is_success_def split: option.splits)
    define ps2 where "ps2 = (case setup_time_ms res of None \<Rightarrow> ps\<lparr>success_count := success_count ps + 1,
                         total_durations_ms := total_durations_ms ps @ [t]\<rparr>
                      | Some s \<Rightarrow> if s \<noteq> 0 then ps\<lparr>success_count := success_count ps + 1,
                         total_durations_ms := total_durations_ms ps @ [t], setup_times_ms := setup_times_ms ps @ [s]\<rparr>
                          else ps\<lparr>success_count := success_count ps + 1,
                         total_durations_ms := total_durations_ms ps @ [t]\<rparr>)"
    from assms True res have e: "efold add_round (case rounds res of None \<Rightarrow> [] | Some rds \<Rightarrow> rds) ps2 = Inr ps'"
      by (auto simp: update_stats_def is_success_def ps2_def Let_def split: option.splits)
    have "round_view ps2 j = round_view ps j"
      by (simp add: ps2_def round_view_def split: option.splits)
    with efold_add_round_fields[OF e, of j] True res show ?thesis
      by (simp add: expected_round_def rounds_of_def split: option.splits)
  qed
qed

lemma splus_assoc: "splus (splus a b) c = splus a (splus b c)"
  by (cases a, cases b, cases c) simp

lemma expected_series_Nil [simp]: "expected_series [] = (0, 0, [], [], [])"
  by (simp add: expected_series_def)

lemma splus_zero [simp]: "splus v (0, 0, [], [], []) = v"
  by (cases v) simp

lemma expected_series_append:
  "expected_series (xs @ ys) = splus (expected_series xs) (expected_series ys)"
  by (simp add: expected_series_def)

lemma expected_round_Nil [simp]: "expected_round j [] = ([], [], [])"
  by (simp add: expected_round_def)

lemma expected_round_append:
  "expected_round j (xs @ ys) = rplus (expected_round j xs) (expected_round j ys)"
  by (simp add: expected_round_def round_entries_append)

lemma for_key_simps [simp]:
  "for_key fmt k [] = []"
  "for_key fmt k (r # rs) = (if record_key fmt r = Inr k then [r] else []) @ for_key fmt k rs"
  by (simp_all add: for_key_def)

lemma stats_of_update [simp]:
  "stats_of (AList.update k ps P) k' = (if k' = k then ps else stats_of P k')"
  by (simp add: stats_of_def update_conv')

lemma series_view_new [simp]: "series_view (new_ProverStats pt nd) = (0, 0, [], [], [])"
  by (simp add: series_view_def new_ProverStats_def)

lemma round_view_new [simp]: "round_view (new_ProverStats pt nd) j = ([], [], [])"
  by (simp add: round_view_def new_ProverStats_def)

lemma rplus_empty_left [simp]: "rplus ([], [], []) v = v"
  by (cases v) simp

lemma splus_zero_left [simp]: "splus (0, 0, [], [], []) v = v"
  by (cases v) simp

lemma ingest_Inr:
  assumes "ingest fmt r P = Inr P'"
  shows "\<exists>k ps0 ps'. record_key fmt r = Inr k \<and>
           series_view ps0 = series_view (stats_of P k) \<and>
           (\<forall>j. round_view ps0 j = round_view (stats_of P k) j) \<and>
           update_stats r ps0 = Inr ps' \<and> P' = AList.update k ps' P"
proof -
  from assms obtain prover where p: "rec_prover r = Some prover"
    by (auto simp: ingest_def split: option.splits)
  with assms obtain parsed k ps' where
    parsed: "parse_prover_type prover = Inr parsed" and
    k: "group_key fmt parsed = Inr k" and
    u: "update_stats r (case map_of P k of
                     None \<Rightarrow> new_ProverStats (fst parsed) (fst (snd parsed))
                   | Some ps \<Rightarrow> ps) = Inr ps'" and
    P': "P' = AList.update k ps' P"
    by (auto simp: ingest_def ebind_eq_Inr Let_def)
  have "record_key fmt r = Inr k"
    using p parsed k by (simp add: record_key_def resolve_key_def)
  moreover have "series_view (case map_of P k of
                     None \<Rightarrow> new_ProverStats (fst parsed) (fst (snd parsed))
                   | Some ps \<Rightarrow> ps) = series_view (stats_of P k)"
    by (simp add: stats_of_def split: option.splits)
  moreover have "\<forall>j. round_view (case map_of P k of
                     None \<Rightarrow> new_ProverStats (fst parsed) (fst (snd parsed))
                   | Some ps \<Rightarrow> ps) j = round_view (stats_of P k) j"
    by (simp add: stats_of_def split: option.splits)
  ultimately show ?thesis using u P' by blast
qed

lemma ingest_ok:
  "(\<exists>P'. ingest fmt r P = Inr P') \<longleftrightarrow> ingestible fmt r"
proof (cases "record_key fmt r")
  case (Inl e)
  then have "ingest fmt r P = Inl e"
    by (auto simp: ingest_def record_key_def resolve_key_def ebind_def split: option.splits sum.splits)
  with Inl show ?thesis by (simp add: ingestible_def)
next
  case (Inr k)
  then obtain prover parsed where p: "rec_prover r = Some prover"
    "parse_prover_type prover = Inr parsed" "group_key fmt parsed = Inr k"
    by (auto simp: record_key_def resolve_key_def ebind_eq_Inr split: option.splits)
  have "(\<exists>P'. ingest fmt r P = Inr P') \<longleftrightarrow>
        (\<exists>ps'. update_stats r (case map_of P k of
                     None \<Rightarrow> new_ProverStats (fst parsed) (fst (snd parsed))
                   | Some ps \<Rightarrow> ps) = Inr ps')"
    using p by (auto simp: ingest_def Let_def ebind_eq_Inr)
  with Inr show ?thesis by (simp add: ingestible_def update_stats_ok)
qed

lemma ingest_view:
  assumes "ingest fmt r P = Inr P'"
  shows "series_view (stats_of P' k) =
           splus (series_view (stats_of P k)) (expected_series (for_key fmt k [r]))"
    and "round_view (stats_of P' k) j =
           rplus (round_view (stats_of P k) j) (expected_round j (for_key fmt k [r]))"
    and "map_of P' k = None \<longleftrightarrow> map_of P k = None \<and> for_key fmt k [r] = []"
    and "distinct (map fst P) \<Longrightarrow> distinct (map fst P')"
proof -
  from ingest_Inr[OF assms] obtain k0 ps0 ps' where
    k0: "record_key fmt r = Inr k0" and
    s0: "series_view ps0 = series_view (stats_of P k0)" and
    r0: "\<And>j. round_view ps0 j = round_view (stats_of P k0) j" and
    u: "update_stats r ps0 = Inr ps'" and P': "P' = AList.update k0 ps' P"
    by blast
  show "series_view (stats_of P' k) =
           splus (series_view (stats_of P k)) (expected_series (for_key fmt k [r]))"
    using update_stats_view(1)[OF u] k0 s0 by (simp add: P')
  show "round_view (stats_of P' k) j =
           rplus (round_view (stats_of P k) j) (expected_round j (for_key fmt k [r]))"
    using update_stats_view(2)[OF u, of j] k0 r0[of j] by (simp add: P')
  show "map_of P' k = None \<longleftrightarrow> map_of P k = None \<and> for_key fmt k [r] = []"
    using k0 by (simp add: P' update_conv')
  show "distinct (map fst P) \<Longrightarrow> distinct (map fst P')"
    by (simp add: P' distinct_update)
qed

lemma efold_ingest_view:
  assumes "efold (ingest fmt) recs P = Inr P'"
  shows "series_view (stats_of P' k) =
           splus (series_view (stats_of P k)) (expected_series (for_key fmt k recs))
       \<and> round_view (stats_of P' k) j =
           rplus (round_view (stats_of P k) j) (expected_round j (for_key fmt k recs))
       \<and> (map_of P' k = None \<longleftrightarrow> map_of P k = None \<and> for_key fmt k recs = [])
       \<and> (distinct (map fst P) \<longrightarrow> distinct (map fst P'))"
  using assms
proof (induction recs arbitrary: P)
  case Nil
  then show ?case by simp
next
  case (Cons r recs)
  from Cons.prems obtain P1 where 1: "ingest fmt r P = Inr P1"
    and 2: "efold (ingest fmt) recs P1 = Inr P'"
    by (auto simp: ebind_eq_Inr)
  have fk: "for_key fmt k (r # recs) = for_key fmt k [r] @ for_key fmt k recs" by simp
  from Cons.IH[OF 2] ingest_view(1)[OF 1, of k] ingest_view(2)[OF 1, of k j]
    ingest_view(3)[OF 1, of k] ingest_view(4)[OF 1] show ?case
    unfolding fk expected_series_append expected_round_append
    by (auto simp: splus_assoc rplus_assoc)
qed

lemma efold_ingest_ok:
  "(\<exists>P'. efold (ingest fmt) recs P = Inr P') \<longleftrightarrow> list_all (ingestible fmt) recs"
proof (induction recs arbitrary: P)
  case Nil
  then show ?case by simp
next
  case (Cons r recs)
  show ?case
  proof (cases "ingest fmt r P")
    case (Inl e)
    with ingest_ok[of fmt r P] show ?thesis by simp
  next
    case (Inr P1)
    with ingest_ok[of fmt r P] Cons.IH[of P1] show ?thesis by auto
  qed
qed

lemma process_line_Inr:
  "process_line fmt l P = Inr P' \<longleftrightarrow>
     l \<noteq> Malformed \<and> l \<noteq> NonObject \<and> efold (ingest fmt) (line_records l) P = Inr P'"
  by (cases l) (auto simp: process_line_def ebind_eq_Inr)

lemma efold_process_line_Inr:
  "efold (process_line fmt) ls P = Inr P' \<longleftrightarrow>
     Malformed \<notin> set ls \<and> NonObject \<notin> set ls \<and>
     efold (ingest fmt) (concat (map line_records ls)) P = Inr P'"
proof (induction ls arbitrary: P)
  case Nil
  then show ?case by simp
next
  case (Cons l ls)
  show ?case
    by (auto simp: ebind_eq_Inr process_line_Inr Cons.IH efold_append)
qed

lemma efold_load_file_Inr:
  "efold (load_file fmt) files P = Inr P' \<longleftrightarrow>
     list_all readable files \<and>
     Malformed \<notin> set (all_lines files) \<and> NonObject \<notin> set (all_lines files) \<and>
     efold (ingest fmt) (file_records files) P = Inr P'"
proof (induction files arbitrary: P)
  case Nil
  then show ?case by (simp add: all_lines_def file_records_def)
next
  case (Cons f files)
  show ?case
  proof (cases f)
    case Unreadable
    then show ?thesis by (simp add: load_file_def)
  next
    case (Readable ls)
    have h: "load_file fmt (Readable ls) Q = efold (process_line fmt) ls Q" for Q
      by (simp add: load_file_def)
    have lines: "all_lines (f # files) = ls @ all_lines files"
      and recs: "file_records (f # files) = concat (map line_records ls) @ file_records files"
      by (simp_all add: Readable all_lines_def file_records_def)
    show ?thesis
      unfolding lines recs
      by (auto simp: Readable ebind_eq_Inr h efold_process_line_Inr Cons.IH efold_append)
  qed
qed

lemma load_and_aggregate_Inr:
  "load_and_aggregate fmt files = Inr P \<longleftrightarrow>
     list_all readable files \<and>
     Malformed \<notin> set (all_lines files) \<and> NonObject \<notin> set (all_lines files) \<and>
     efold (ingest fmt) (file_records files) [] = Inr P"
  by (simp add: load_and_aggregate_def efold_load_file_Inr)



lemma stats_of_Nil [simp]: "stats_of [] k = new_ProverStats [] JNull"
  by (simp add: stats_of_def)

lemma load_and_aggregate_view:
  assumes "load_and_aggregate fmt files = Inr P"
  shows "series_view (stats_of P k) = expected_series (for_key fmt k (file_records files))"
    and "round_view (stats_of P k) j = expected_round j (for_key fmt k (file_records files))"
    and "map_of P k = None \<longleftrightarrow> for_key fmt k (file_records files) = []"
    and "distinct (map fst P)"
    and "list_all (ingestible fmt) (file_records files)"
proof -
  from assms have e: "efold (ingest fmt) (file_records files) [] = Inr P"
    by (simp add: load_and_aggregate_Inr)
  from efold_ingest_view[OF e, of k j]
  show "series_view (stats_of P k) = expected_series (for_key fmt k (file_records files))"
    and "round_view (stats_of P k) j = expected_round j (for_key fmt k (file_records files))"
    and "map_of P k = None \<longleftrightarrow> for_key fmt k (file_records files) = []"
    and "distinct (map fst P)"
    by simp_all
  from e efold_ingest_ok[of fmt "file_records files" "[]"]
  show "list_all (ingestible fmt) (file_records files)" by blast
qed

lemma stats_of_member:
  "distinct (map fst P) \<Longrightarrow> (k, ps) \<in> set P \<Longrightarrow> stats_of P k = ps \<and> map_of P k = Some ps"
  by (simp add: stats_of_def)

lemma totals_of_length:
  "payload_complete r \<Longrightarrow> length (totals_of r) = (if is_success r then 1 else 0)"
  by (auto simp: payload_complete_def totals_of_def split: option.splits if_splits)

lemma totals_length_successes:
  "list_all payload_complete rs \<Longrightarrow> length (concat (map totals_of rs)) = length (filter is_success rs)"
  by (induction rs) (simp_all add: totals_of_length)

lemma for_key_ingestible:
  "list_all (ingestible fmt) rs \<Longrightarrow> list_all payload_complete (for_key fmt k rs)"
  by (induction rs) (auto simp: ingestible_def split: sum.splits)

lemmas run_defs = load_and_aggregate_def load_file_def process_line_def ingest_def
  parse_prover_type_def group_key_def update_stats_def new_ProverStats_def
  direct_run_def failed_run_def truncated_run_def Let_def

lemma example_load:
  "load_and_aggregate fmt example_files = Inr [(''Direct'', example_stats)]"
  by (simp add: example_files_def example_stats_def run_defs)

lemma example_records:
  "for_key fmt ''Direct'' (file_records example_files) =
     [direct_run 100 (Some 0), failed_run, direct_run 102 (Some 7), direct_run 98 None]"
  by (simp add: example_files_def file_records_def all_lines_def record_key_def resolve_key_def
      parse_prover_type_def group_key_def direct_run_def failed_run_def)

lemma loaded_totals_length:
  assumes "load_and_aggregate fmt files = Inr provers" and "(k, ps) \<in> set provers"
  shows "length (total_durations_ms ps) = success_count ps"
proof -
  note v = load_and_aggregate_view[OF assms(1)]
  from stats_of_member[OF v(4) assms(2)] have ps: "stats_of provers k = ps" by simp
  let ?rs = "for_key fmt k (file_records files)"
  from v(1)[of k] ps have "series_view ps = expected_series ?rs" by simp
  then have "success_count ps = length (filter is_success ?rs)"
    and "total_durations_ms ps = concat (map totals_of ?rs)"
    by (simp_all add: series_view_def expected_series_def)
  with totals_length_successes[OF for_key_ingestible[OF v(5)], of k] show ?thesis by simp
qed

text \<open>
  C2. After a batch has been ingested, every group of the resulting mapping has
  \<open>success_count + failure_count\<close> equal to the number of input records whose resolved
  key is that group, and as many total durations as successes.
\<close>

theorem aggregator_counts_invariant:
  assumes "load_and_aggregate fmt files = Inr provers" and "(k, ps) \<in> set provers"
  shows "success_count ps + failure_count ps = length (for_key fmt k (file_records files))
       \<and> length (total_durations_ms ps) = success_count ps"
proof -
  note v = load_and_aggregate_view[OF assms(1)]
  from stats_of_member[OF v(4) assms(2)] have ps: "stats_of provers k = ps" by simp
  let ?rs = "for_key fmt k (file_records files)"
  from v(1)[of k] ps have sv: "series_view ps = expected_series ?rs" by simp
  then have s: "success_count ps = length (filter is_success ?rs)"
    and f: "failure_count ps = length (filter (\<lambda>r. \<not> is_success r) ?rs)"
    and t: "total_durations_ms ps = concat (map totals_of ?rs)"
    by (simp_all add: series_view_def expected_series_def)
  have "length (filter is_success ?rs) + length (filter (\<lambda>r. \<not> is_success r) ?rs) = length ?rs"
    by (rule sum_length_filter_compl)
  moreover have "length (concat (map totals_of ?rs)) = length (filter is_success ?rs)"
    using totals_length_successes[OF for_key_ingestible[OF v(5)]] .
  ultimately show ?thesis using s f t by simp
qed

theorem aggregator_counts_invariant_witness:
  "load_and_aggregate (\<lambda>v. []) example_files = Inr [(''Direct'', example_stats)]
   \<and> success_count example_stats + failure_count example_stats = 4
   \<and> length (for_key (\<lambda>v. []) ''Direct'' (file_records example_files)) = 4
   \<and> length (total_durations_ms example_stats) = success_count example_stats"
proof -
  have m: "(''Direct'', example_stats) \<in> set [(''Direct'', example_stats)]" by simp
  from aggregator_counts_invariant[OF example_load m, of "\<lambda>v. []"]
  show ?thesis by (simp add: example_load example_records)
qed

text \<open>
  C9. The setup times of a group are exactly, in input order, the \<open>setup_time_ms\<close> values
  of its successful records that are present and not zero: a value of 0 is left out like
  an absent one.
\<close>

theorem setup_times_skip_zero:
  assumes "load_and_aggregate fmt files = Inr provers" and "(k, ps) \<in> set provers"
  shows "setup_times_ms ps = concat (map setups_of (for_key fmt k (file_records files)))"
proof -
  note v = load_and_aggregate_view[OF assms(1)]
  from stats_of_member[OF v(4) assms(2)] have ps: "stats_of provers k = ps" by simp
  from v(1)[of k] ps show ?thesis
    by (simp add: series_view_def expected_series_def)
qed

theorem setup_times_skip_zero_witness:
  "load_and_aggregate (\<lambda>v. []) example_files = Inr [(''Direct'', example_stats)]
   \<and> setup_times_ms example_stats =
       concat (map setups_of
         [direct_run 100 (Some 0), failed_run, direct_run 102 (Some 7), direct_run 98 None])
   \<and> setups_of (direct_run 100 (Some 0)) = []
   \<and> setups_of (direct_run 102 (Some 7)) = [7]
   \<and> setup_times_ms example_stats = [7]"
proof -
  have m: "(''Direct'', example_stats) \<in> set [(''Direct'', example_stats)]" by simp
  have s: "setups_of (direct_run 100 (Some 0)) = []" "setups_of (direct_run 102 (Some 7)) = [7]"
    by (simp_all add: setups_of_def is_success_def direct_run_def)
  from setup_times_skip_zero[OF example_load m, of "\<lambda>v. []"] s
  show ?thesis by (simp add: example_load example_records example_stats_def)
qed





subsection \<open>Significance tests\<close>

lemma fold_compare_pair:
  "fold (compare_pair tt e1) rest results =
     results @ map (pair_result tt) (filter testable (map (Pair e1) rest))"
  by (induction rest arbitrary: results) (simp_all add: compare_pair_def)

lemma sig_loop_pairs:
  "sig_loop tt provers results =
     results @ map (pair_result tt) (filter testable (pairs provers))"
  by (induction provers arbitrary: results) (simp_all add: fold_compare_pair)

lemma perform_significance_tests_pairs:
  "perform_significance_tests tt provers =
     map (pair_result tt) (filter testable (pairs provers))"
  by (simp add: perform_significance_tests_def sig_loop_pairs)

lemma set_pairs:
  "set (pairs xs) = {(xs ! i, xs ! j) | i j. i < j \<and> j < length xs}"
proof (induction xs)
  case Nil
  then show ?case by simp
next
  case (Cons x xs)
  have "{((x # xs) ! i, (x # xs) ! j) | i j. i < j \<and> j < length (x # xs)} =
        Pair x ` set xs \<union> {(xs ! i, xs ! j) | i j. i < j \<and> j < length xs}"
    (is "?L = ?R")
  proof (intro equalityI subsetI)
    fix p assume "p \<in> ?L"
    then obtain i j where p: "p = ((x # xs) ! i, (x # xs) ! j)" and ij: "i < j" "j < Suc (length xs)"
      by auto
    from ij obtain j' where j': "j = Suc j'" by (cases j) auto
    show "p \<in> ?R"
    proof (cases i)
      case 0
      with p j' ij show ?thesis by auto
    next
      case (Suc i')
      with p j' ij have "p = (xs ! i', xs ! j') \<and> i' < j' \<and> j' < length xs" by auto
      then show ?thesis by blast
    qed
  next
    fix p assume "p \<in> ?R"
    then show "p \<in> ?L"
    proof
      assume "p \<in> Pair x ` set xs"
      then obtain y where "y \<in> set xs" "p = (x, y)" by auto
      then obtain j where "j < length xs" "xs ! j = y" by (auto simp: in_set_conv_nth)
      with \<open>p = (x, y)\<close> have "p = ((x # xs) ! 0, (x # xs) ! Suc j) \<and> 0 < Suc j \<and> Suc j < length (x # xs)"
        by simp
      then show ?thesis by blast
    next
      assume "p \<in> {(xs ! i, xs ! j) | i j. i < j \<and> j < length xs}"
      then obtain i j where "p = (xs ! i, xs ! j)" "i < j" "j < length xs" by auto
      then have "p = ((x # xs) ! Suc i, (x # xs) ! Suc j) \<and> Suc i < Suc j \<and> Suc j < length (x # xs)"
        by simp
      then show ?thesis by blast
    qed
  qed
  with Cons show ?case by simp
qed

text \<open>
  The pairs that are tested: the pair of the groups at positions \<open>i < j\<close> of the mapping
  gets a result exactly when both groups have at least two total durations. Below, three
  groups of which the middle one has a single duration: only the pair of the other two
  appears.
\<close>

lemma tested_pairs_iff:
  assumes "i < j" and "j < length provers"
  shows "(provers ! i, provers ! j) \<in> set (filter testable (pairs provers)) \<longleftrightarrow>
           2 \<le> length (total_durations_ms (snd (provers ! i))) \<and>
           2 \<le> length (total_durations_ms (snd (provers ! j)))"
proof -
  from assms have "(provers ! i, provers ! j) \<in> set (pairs provers)"
    unfolding set_pairs by blast
  then show ?thesis by (simp add: testable_def)
qed

lemma untested_pair_is_absent:
  "map comparison (perform_significance_tests tt
      [(''A'', group_of [1, 2]), (''B'', group_of [3]), (''C'', group_of [4, 5])]) = [''A vs C'']"
  by (simp add: perform_significance_tests_pairs testable_def pair_result_def group_of_def
      new_ProverStats_def split: prod.splits)

text \<open>
  Welch's test on series of zero variance, and the range of its p-value: with a tail
  probability in \<open>[0, 1/2]\<close>, the p-value is a number in \<open>[0, 1]\<close> unless the standard
  error is zero and the means are equal, when it is NaN.
\<close>

lemma np_var1_constant2: "np_var1 [x, x] = 0"
  by (simp add: np_var1_def np_mean_def)

lemma welch_ttest_zero_variance:
  assumes "np_var1 a = 0" and "np_var1 b = 0" and "np_mean a = np_mean b"
  shows "welch_ttest tail a b = (NaN, NaN)"
  using assms by (simp add: welch_ttest_def)

lemma welch_ttest_p_value:
  assumes tail: "\<And>df x. 0 \<le> tail df x \<and> tail df x \<le> 1 / 2"
  shows "(\<exists>p. snd (welch_ttest tail a b) = Num p \<and> 0 \<le> p \<and> p \<le> 1)
       \<or> (snd (welch_ttest tail a b) = NaN \<and>
           sqrt (np_var1 a / real (length a) + np_var1 b / real (length b)) = 0 \<and>
           np_mean a = np_mean b)"
proof -
  have "0 \<le> 2 * tail df x \<and> 2 * tail df x \<le> 1" for df x
    using tail[of df x] by simp
  then show ?thesis
    by (simp add: welch_ttest_def Let_def)
qed

lemma constant_runs_load:
  "load_and_aggregate fmt constant_runs =
      Inr [(''Direct'', (new_ProverStats ''Direct'' JNull)
              \<lparr>total_durations_ms := [1, 1], success_count := 2\<rparr>),
           (''Other'', (new_ProverStats ''Other'' JNull)
              \<lparr>total_durations_ms := [1, 1], success_count := 2\<rparr>)]"
  by (simp add: constant_runs_def other_run_def run_defs)

text \<open>
  C8. The p-value of an emitted result is not always in \<open>[0, 1]\<close>. Four successful runs
  of one millisecond each, two of a group \<open>Direct\<close> and two of a group \<open>Other\<close>, are
  ingested into two groups with two total durations each, so the pair passes the guard of
  line 196 and a result is emitted. Both series have zero variance and the same mean, and
  Welch's test divides zero by zero: the result has the t statistic and the p-value NaN,
  and neither significance flag set. Cohen's d, computed next, has a fallback for this
  case (line 208) and is 0; the t-test has none.
\<close>

theorem zero_variance_pair_has_nan_p_value:
  "load_and_aggregate fmt constant_runs =
      Inr [(''Direct'', (new_ProverStats ''Direct'' JNull)
              \<lparr>total_durations_ms := [1, 1], success_count := 2\<rparr>),
           (''Other'', (new_ProverStats ''Other'' JNull)
              \<lparr>total_durations_ms := [1, 1], success_count := 2\<rparr>)]
   \<and> perform_significance_tests (welch_ttest tail)
        [(''Direct'', (new_ProverStats ''Direct'' JNull)
              \<lparr>total_durations_ms := [1, 1], success_count := 2\<rparr>),
         (''Other'', (new_ProverStats ''Other'' JNull)
              \<lparr>total_durations_ms := [1, 1], success_count := 2\<rparr>)] =
      [\<lparr>comparison = ''Direct vs Other'', t_statistic = NaN, p_value = NaN, cohens_d = 0,
        significant_005 = False, significant_001 = False\<rparr>]"
proof -
  have w: "welch_ttest tail [1, 1] [1, 1] = (NaN, NaN)"
    by (rule welch_ttest_zero_variance) (simp_all add: np_var1_constant2)
  have d: "cohens_d_of [1, 1] [1, 1] = 0"
    by (simp add: cohens_d_of_def np_var1_constant2)
  have "perform_significance_tests (welch_ttest tail)
        [(''Direct'', (new_ProverStats ''Direct'' JNull)
              \<lparr>total_durations_ms := [1, 1], success_count := 2\<rparr>),
         (''Other'', (new_ProverStats ''Other'' JNull)
              \<lparr>total_durations_ms := [1, 1], success_count := 2\<rparr>)] =
      [\<lparr>comparison = ''Direct vs Other'', t_statistic = NaN, p_value = NaN, cohens_d = 0,
        significant_005 = False, significant_001 = False\<rparr>]"
    by (simp add: perform_significance_tests_pairs testable_def pair_result_def
        new_ProverStats_def w d)
  with constant_runs_load show ?thesis by simp
qed

subsection \<open>The renderers\<close>

lemma json_entry_keys:
  "x \<in> fst ` set (json_entry ti e) \<longleftrightarrow> success_count (snd e) \<noteq> 0 \<and> x = fst e"
  by (cases e) (simp add: json_entry_def)

lemma csv_rows_keys:
  "x \<in> csv_prover_type ` set (csv_rows ti e) \<longleftrightarrow> success_count (snd e) \<noteq> 0 \<and> x = fst e"
  by (cases e) (auto simp: csv_rows_def)

lemma export_json_keys:
  "x \<in> set (map fst (je_provers (export_json ti provers sig))) \<longleftrightarrow>
     (\<exists>e \<in> set provers. success_count (snd e) \<noteq> 0 \<and> x = fst e)"
proof -
  have "x \<in> set (map fst (je_provers (export_json ti provers sig))) \<longleftrightarrow>
        (\<exists>e \<in> set provers. x \<in> fst ` set (json_entry ti e))"
    by (auto simp: export_json_def)
  then show ?thesis by (simp add: json_entry_keys)
qed

lemma export_csv_keys:
  "x \<in> set (map csv_prover_type (export_csv ti provers)) \<longleftrightarrow>
     (\<exists>e \<in> set provers. success_count (snd e) \<noteq> 0 \<and> x = fst e)"
proof -
  have "x \<in> set (map csv_prover_type (export_csv ti provers)) \<longleftrightarrow>
        (\<exists>e \<in> set provers. x \<in> csv_prover_type ` set (csv_rows ti e))"
    by (auto simp: export_csv_def)
  then show ?thesis by (simp add: csv_rows_keys)
qed

lemma report_group_unsuccessful:
  "success_count ps = 0 \<Longrightarrow>
     report_group ti (k, ps) =
       ([ProverHeading k, RunsLine 0 (failure_count ps) 0, NoSuccessfulRuns], None)"
  by (simp add: report_group_def Let_def)

lemma compute_stats_width:
  "xs \<noteq> [] \<Longrightarrow> st_ci_width_pct (compute_stats ti xs) \<noteq> None"
  by (simp add: compute_stats_def Let_def split: prod.splits)

lemma report_group_consistent:
  assumes "length (total_durations_ms (snd e)) = success_count (snd e)"
  shows "snd (report_group ti e) = None"
proof (cases e)
  case (Pair k ps)
  show ?thesis
  proof (cases "success_count ps = 0")
    case True
    then show ?thesis by (simp add: Pair report_group_unsuccessful)
  next
    case False
    with assms Pair have "total_durations_ms ps \<noteq> []" by auto
    from compute_stats_width[OF this, of ti] False show ?thesis
      by (auto simp: Pair report_group_def Let_def)
  qed
qed

lemma report_groups_consistent:
  assumes "\<And>e. e \<in> set es \<Longrightarrow> snd (report_group ti e) = None"
  shows "report_groups ti es = (concat (map (\<lambda>e. fst (report_group ti e)) es), None)"
  using assms
proof (induction es)
  case Nil
  then show ?case by simp
next
  case (Cons e es)
  then have "snd (report_group ti e) = None"
    and "report_groups ti es = (concat (map (\<lambda>e. fst (report_group ti e)) es), None)"
    by simp_all
  then show ?case by (cases "report_group ti e") simp
qed

text \<open>
  C10. Whatever was aggregated, a group without successful runs has no entry in the JSON
  export (so its \<open>failure_count\<close> is not exported either) and no row in the CSV export,
  while the report, which is printed to its end, shows its heading, its run counts and the
  notice that there is nothing to analyse.
\<close>

theorem unsuccessful_group_only_in_report:
  assumes "load_and_aggregate fmt files = Inr provers"
    and "(k, ps) \<in> set provers" and "success_count ps = 0"
  shows "k \<notin> set (map fst (je_provers (export_json ti provers sig)))
     \<and> k \<notin> set (map csv_prover_type (export_csv ti provers))
     \<and> (\<exists>before after. print_report ti provers sig =
           (before @ [ProverHeading k, RunsLine 0 (failure_count ps) 0, NoSuccessfulRuns] @ after,
            None))"
proof -
  have d: "distinct (map fst provers)" by (rule load_and_aggregate_view(4)[OF assms(1)])
  have only: "e \<in> set provers \<Longrightarrow> fst e = k \<Longrightarrow> e = (k, ps)" for e
    using d assms(2) by (metis eq_key_imp_eq_value prod.collapse)
  have no_key: "\<not> (\<exists>e \<in> set provers. success_count (snd e) \<noteq> 0 \<and> k = fst e)"
    using only assms(3) by fastforce
  have j: "k \<notin> set (map fst (je_provers (export_json ti provers sig)))"
    using no_key unfolding export_json_keys .
  have c: "k \<notin> set (map csv_prover_type (export_csv ti provers))"
    using no_key unfolding export_csv_keys .
  have ok: "snd (report_group ti e) = None" if "e \<in> set (sort_key fst provers)" for e
  proof -
    from that have "(fst e, snd e) \<in> set provers" by simp
    from loaded_totals_length[OF assms(1) this] show ?thesis
      by (rule report_group_consistent)
  qed
  have "(k, ps) \<in> set (sort_key fst provers)" using assms(2) by simp
  then obtain xs ys where split: "sort_key fst provers = xs @ (k, ps) # ys"
    by (meson split_list)
  let ?tail = "if sig \<noteq> [] then SignificanceHeading # map SignificanceLine sig else []"
  have rg: "report_groups ti (sort_key fst provers) =
      (concat (map (\<lambda>e. fst (report_group ti e)) (sort_key fst provers)), None)"
    by (rule report_groups_consistent[OF ok])
  have "print_report ti provers sig =
      (ReportTitle # concat (map (\<lambda>e. fst (report_group ti e)) (sort_key fst provers)) @ ?tail,
       None)"
    by (simp add: print_report_def rg)
  also have "\<dots> =
      ((ReportTitle # concat (map (\<lambda>e. fst (report_group ti e)) xs))
       @ [ProverHeading k, RunsLine 0 (failure_count ps) 0, NoSuccessfulRuns]
       @ (concat (map (\<lambda>e. fst (report_group ti e)) ys) @ ?tail), None)"
    by (simp add: split report_group_unsuccessful[OF assms(3)])
  finally have "print_report ti provers sig =
      ((ReportTitle # concat (map (\<lambda>e. fst (report_group ti e)) xs))
       @ [ProverHeading k, RunsLine 0 (failure_count ps) 0, NoSuccessfulRuns]
       @ (concat (map (\<lambda>e. fst (report_group ti e)) ys) @ ?tail), None)" .
  then have "\<exists>before after. print_report ti provers sig =
       (before @ [ProverHeading k, RunsLine 0 (failure_count ps) 0, NoSuccessfulRuns] @ after,
        None)"
    by blast
  with j c show ?thesis by blast
qed

theorem unsuccessful_group_only_in_report_witness:
  "load_and_aggregate (\<lambda>v. []) failed_only =
     Inr [(''Direct'', (new_ProverStats ''Direct'' JNull)\<lparr>failure_count := 2\<rparr>)]
   \<and> ''Direct'' \<notin> set (map fst (je_provers (export_json (\<lambda>c d m s. (m, m))
        [(''Direct'', (new_ProverStats ''Direct'' JNull)\<lparr>failure_count := 2\<rparr>)] [])))
   \<and> ''Direct'' \<notin> set (map csv_prover_type (export_csv (\<lambda>c d m s. (m, m))
        [(''Direct'', (new_ProverStats ''Direct'' JNull)\<lparr>failure_count := 2\<rparr>)]))
   \<and> print_report (\<lambda>c d m s. (m, m))
        [(''Direct'', (new_ProverStats ''Direct'' JNull)\<lparr>failure_count := 2\<rparr>)] [] =
       ([ReportTitle, ProverHeading ''Direct'', RunsLine 0 2 0, NoSuccessfulRuns], None)"
proof -
  let ?ps = "(new_ProverStats ''Direct'' JNull)\<lparr>failure_count := 2\<rparr>"
  have a: "load_and_aggregate (\<lambda>v. []) failed_only = Inr [(''Direct'', ?ps)]"
    by (simp add: failed_only_def run_defs)
  have b: "(''Direct'', ?ps) \<in> set [(''Direct'', ?ps)]" by simp
  have c: "success_count ?ps = 0" by (simp add: new_ProverStats_def)
  have r: "print_report (\<lambda>c d m s. (m, m)) [(''Direct'', ?ps)] [] =
       ([ReportTitle, ProverHeading ''Direct'', RunsLine 0 2 0, NoSuccessfulRuns], None)"
    by (simp add: print_report_def report_group_def new_ProverStats_def)
  from unsuccessful_group_only_in_report[OF a b c, of "\<lambda>c d m s. (m, m)" "[]"] a r
  show ?thesis by blast
qed

text \<open>
  On a dict that no aggregation produces, one with successes counted but no duration
  recorded, the report stops at that group with the \<open>KeyError\<close>.
\<close>

lemma report_stops_on_inconsistent_group:
  "\<forall>ti. print_report ti
      [(''A'', (new_ProverStats ''A'' JNull)\<lparr>success_count := 1\<rparr>),
       (''B'', (new_ProverStats ''B'' JNull)\<lparr>failure_count := 1\<rparr>)] [] =
     ([ReportTitle, ProverHeading ''A'', RunsLine 1 1 100,
       StatisticsBlocks (compute_stats ti [])], Some (KeyError ''ci_width_pct''))"
  by (simp add: print_report_def report_group_def new_ProverStats_def compute_stats_def)

subsection \<open>Order of ingestion\<close>











text \<open>
  The groups of a loaded mapping are in the order in which their keys first appear among
  the records.
\<close>

lemma add_keys_append: "add_keys seen (xs @ ys) = add_keys (add_keys seen xs) ys"
  by (induction xs arbitrary: seen) simp_all

lemma add_keys_set: "set (add_keys seen ks) = set seen \<union> set ks"
  by (induction ks arbitrary: seen) auto

lemma add_keys_distinct: "distinct seen \<Longrightarrow> distinct (add_keys seen ks)"
  by (induction ks arbitrary: seen) auto

lemma first_seen_set: "set (first_seen ks) = set ks"
  by (simp add: first_seen_def add_keys_set)

lemma first_seen_distinct: "distinct (first_seen ks)"
  by (simp add: first_seen_def add_keys_distinct)

lemma first_seen_remdups: "first_seen ks = rev (remdups (rev ks))"
proof -
  have "add_keys seen ks = seen @ filter (\<lambda>k. k \<notin> set seen) (rev (remdups (rev ks)))"
    for seen :: "'a list"
  proof (induction ks arbitrary: seen rule: rev_induct)
    case Nil
    then show ?case by simp
  next
    case (snoc k ks)
    show ?case
      by (auto simp: add_keys_append snoc.IH)
  qed
  from this[of "[]"] show ?thesis by (simp add: first_seen_def)
qed

lemma record_keys_simps [simp]:
  "record_keys fmt [] = []"
  "record_keys fmt (r # rs) =
     (case record_key fmt r of Inl e \<Rightarrow> [] | Inr k \<Rightarrow> [k]) @ record_keys fmt rs"
  by (simp_all add: record_keys_def)


































end
